(* ===== verification/Go_Prelude.thy ===== *)
theory Go_Prelude
  imports Main
    "HOL-Library.FSet"
    "HOL-Library.Finite_Map"
    "HOL-Library.Multiset"
    "HOL-Library.List_Lexorder"
    "HOL-Library.Char_ord"
    "HOL-Library.Code_Target_Nat"
begin

text \<open>
  Shared vocabulary of the development: Go error values, the parts of the Go standard
  library the sources call (package strings, map iteration), the outcome of code that may
  block on a mutex or a channel, and the generic lemmas the components use.

  Strings are byte lists (\<open>string\<close>), as Go's are. A Go \<open>map\<close> is a finite map and a
  \<open>sets.String\<close> a finite set of strings; a nil set is only ever read by the sources, and
  reading it behaves like reading the empty set.
\<close>

section \<open>Lemma collections\<close>

named_theorems go_strings \<open>characterisations of the functions of package strings\<close>
named_theorems store_simps \<open>what a lookup returns after an update of a store\<close>
named_theorems run_simps \<open>evaluation of code that may block\<close>

section \<open>Errors\<close>

text \<open>
  Go error values as far as the sources tell them apart: \<open>errors.NewNotFound\<close>,
  \<open>errors.NewForbidden\<close>, \<open>utilerrors.NewAggregate\<close> and plain \<open>errors.New\<close> or
  \<open>fmt.Errorf\<close> texts. The rendered message of an error is not modelled.
\<close>

datatype go_error =
    NotFound string string            \<comment> \<open>resource, name\<close>
  | Forbidden string string string    \<comment> \<open>resource, name, reason\<close>
  | ErrorText string
  | Aggregate "go_error list"

type_synonym 'a result = "go_error + 'a"

fun IsNotFound :: "go_error \<Rightarrow> bool" where
  "IsNotFound (NotFound r n) = True"
| "IsNotFound _ = False"

text \<open>\<open>NewAggregate\<close> of no error is nil, so that a caller's \<open>err != nil\<close> is false.\<close>

definition NewAggregate :: "go_error list \<Rightarrow> go_error option" where
  "NewAggregate errlist = (if length errlist = 0 then None else Some (Aggregate errlist))"

lemma NewAggregate_None [simp]: "NewAggregate es = None \<longleftrightarrow> es = []"
  by (simp add: NewAggregate_def)

lemma NewAggregate_Some [simp]: "NewAggregate es = Some e \<longleftrightarrow> es \<noteq> [] \<and> e = Aggregate es"
  by (auto simp: NewAggregate_def)

lemma map_sum_Inr_iff [simp]: "map_sum f g x = Inr y \<longleftrightarrow> (\<exists>z. x = Inr z \<and> y = g z)"
  by (cases x) auto

lemma map_sum_Inl_iff [simp]: "map_sum f g x = Inl y \<longleftrightarrow> (\<exists>z. x = Inl z \<and> y = f z)"
  by (cases x) auto

lemma sum_Inr_iff: "(\<exists>y. x = Inr y) \<longleftrightarrow> (\<forall>e. x \<noteq> Inl e)"
  by (cases x) auto

section \<open>Package strings\<close>

definition hasPrefix :: "string \<Rightarrow> string \<Rightarrow> bool" where
  "hasPrefix s p \<longleftrightarrow> length p \<le> length s \<and> take (length p) s = p"

definition hasSuffix :: "string \<Rightarrow> string \<Rightarrow> bool" where
  "hasSuffix s p \<longleftrightarrow> length p \<le> length s \<and> drop (length s - length p) s = p"

text \<open>\<open>strings.TrimRight\<close> with a cutset of one byte: every trailing occurrence goes.\<close>

definition trimRight :: "string \<Rightarrow> char \<Rightarrow> string" where
  "trimRight s c = rev (dropWhile (\<lambda>x. x = c) (rev s))"

text \<open>\<open>strings.LastIndex\<close> with a separator of one byte; \<open>-1\<close> when it does not occur.\<close>

fun lastIndexFrom :: "int \<Rightarrow> int \<Rightarrow> string \<Rightarrow> char \<Rightarrow> int" where
  "lastIndexFrom i found [] c = found"
| "lastIndexFrom i found (x # xs) c = lastIndexFrom (i + 1) (if x = c then i else found) xs c"

definition lastIndex :: "string \<Rightarrow> char \<Rightarrow> int" where
  "lastIndex s c = lastIndexFrom 0 (-1) s c"

text \<open>\<open>strings.SplitN(s, c, 2)\<close>: at most one cut, at the first occurrence.\<close>

definition splitN2 :: "string \<Rightarrow> char \<Rightarrow> string list" where
  "splitN2 s c =
     (if c \<in> set s then [takeWhile (\<lambda>x. x \<noteq> c) s, tl (dropWhile (\<lambda>x. x \<noteq> c) s)] else [s])"

text \<open>\<open>strings.Join\<close>.\<close>

fun join :: "string list \<Rightarrow> string \<Rightarrow> string" where
  "join [] sep = []"
| "join [x] sep = x"
| "join (x # y # ys) sep = x @ sep @ join (y # ys) sep"

lemma hasPrefix_iff [go_strings]: "hasPrefix s p \<longleftrightarrow> (\<exists>t. s = p @ t)"
  unfolding hasPrefix_def by (metis append_eq_conv_conj append_take_drop_id length_append le_add1)

lemma hasSuffix_iff [go_strings]: "hasSuffix s p \<longleftrightarrow> (\<exists>t. s = t @ p)"
  unfolding hasSuffix_def
  by (metis append_eq_conv_conj append_take_drop_id diff_add_inverse2 length_append le_add2)

lemma hasPrefix_append [simp]: "hasPrefix (p @ t) p"
  by (auto simp: hasPrefix_iff)

lemma hasSuffix_append [simp]: "hasSuffix (t @ p) p"
  by (auto simp: hasSuffix_iff)

lemma prefix_suffix_eq:
  assumes "length s = length p + length q" "hasPrefix s p" "hasSuffix s q"
  shows "s = p @ q"
proof -
  from assms(2) obtain t where t: "s = p @ t" by (auto simp: hasPrefix_iff)
  from assms(3) obtain u where u: "s = u @ q" by (auto simp: hasSuffix_iff)
  from assms(1) t u have "length u = length p" by simp
  with t u show ?thesis by auto
qed

lemma trimRight_decomp:
  "\<exists>k. s = trimRight s c @ replicate k c \<and> (trimRight s c = [] \<or> last (trimRight s c) \<noteq> c)"
proof -
  let ?d = "dropWhile (\<lambda>x. x = c) (rev s)" and ?t = "takeWhile (\<lambda>x. x = c) (rev s)"
  have "rev s = ?t @ ?d" by simp
  then have s: "s = rev ?d @ rev ?t" by (metis rev_append rev_rev_ident)
  have "?t = replicate (length ?t) c"
    by (rule replicate_length_same [symmetric]) (auto dest: set_takeWhileD)
  then have "rev ?t = replicate (length ?t) c" by (metis rev_replicate)
  moreover have "rev ?d = [] \<or> last (rev ?d) \<noteq> c"
    using hd_dropWhile [of "\<lambda>x. x = c" "rev s"] by (auto simp: last_rev)
  ultimately show ?thesis using s by (auto simp: trimRight_def)
qed

lemma lastIndexFrom_append:
  "lastIndexFrom i f (xs @ ys) c = lastIndexFrom (i + int (length xs)) (lastIndexFrom i f xs c) ys c"
  by (induction i f xs c rule: lastIndexFrom.induct) (auto simp: algebra_simps)

lemma lastIndexFrom_absent: "c \<notin> set xs \<Longrightarrow> lastIndexFrom i f xs c = f"
  by (induction xs arbitrary: i) auto

lemma lastIndex_absent [go_strings]: "c \<notin> set s \<Longrightarrow> lastIndex s c = -1"
  by (simp add: lastIndex_def lastIndexFrom_absent)

lemma lastIndex_at [go_strings]: "c \<notin> set ys \<Longrightarrow> lastIndex (xs @ c # ys) c = int (length xs)"
  by (simp add: lastIndex_def lastIndexFrom_append lastIndexFrom_absent)

lemma last_cut_unique:
  fixes c :: char
  assumes "c \<notin> set ys" "c \<notin> set ys'"
  shows "xs @ c # ys = xs' @ c # ys' \<longleftrightarrow> xs = xs' \<and> ys = ys'"
proof
  assume eq: "xs @ c # ys = xs' @ c # ys'"
  have "lastIndex (xs @ c # ys) c = int (length xs)" "lastIndex (xs' @ c # ys') c = int (length xs')"
    using assms by (simp_all add: lastIndex_at)
  with eq have "length xs = length xs'" by simp
  with eq show "xs = xs' \<and> ys = ys'" by simp
qed simp

lemma lastIndex_decomp:
  assumes "c \<in> set s"
  obtains xs ys where "s = xs @ c # ys" "c \<notin> set ys" "lastIndex s c = int (length xs)"
  using assms by (metis lastIndex_at split_list_last)

lemma splitN2_at [go_strings]: "c \<notin> set xs \<Longrightarrow> splitN2 (xs @ c # ys) c = [xs, ys]"
  by (simp add: splitN2_def takeWhile_append dropWhile_append)

lemma splitN2_absent [go_strings]: "c \<notin> set s \<Longrightarrow> splitN2 s c = [s]"
  by (simp add: splitN2_def)

section \<open>Map iteration\<close>

text \<open>
  Ranging over a Go map visits every key once in an order the runtime chooses. The order
  is a parameter \<open>ord\<close> of the code that ranges over a map: a rearrangement of the
  entries, which are listed here by ascending key.
\<close>

definition range_order :: "('a list \<Rightarrow> 'a list) \<Rightarrow> bool" where
  "range_order ord \<longleftrightarrow> (\<forall>xs. mset (ord xs) = mset xs)"

lemma range_order_set [simp]: "range_order ord \<Longrightarrow> set (ord xs) = set xs"
  unfolding range_order_def by (metis set_mset_mset)

lemma range_order_distinct [simp]: "range_order ord \<Longrightarrow> distinct (ord xs) = distinct xs"
  unfolding range_order_def by (metis mset_eq_imp_distinct_iff)

lemma range_order_id [simp]: "range_order id" "range_order (\<lambda>xs. xs)"
  by (simp_all add: range_order_def)

lemma range_order_rev [simp]: "range_order rev"
  by (simp add: range_order_def)

section \<open>Code that may block\<close>

text \<open>
  A call either finishes with a value and a new state or waits for ever (on a mutex that
  its own goroutine holds, or on a full channel nobody drains); the state in which it is
  stuck is kept.
\<close>

datatype ('a, 's) run = Done 'a 's | Blocked 's

fun bind_run :: "('a, 's) run \<Rightarrow> ('a \<Rightarrow> 's \<Rightarrow> ('b, 's) run) \<Rightarrow> ('b, 's) run" where
  "bind_run (Done a s) f = f a s"
| "bind_run (Blocked s) f = Blocked s"

fun for_each :: "('x \<Rightarrow> 's \<Rightarrow> (unit, 's) run) \<Rightarrow> 'x list \<Rightarrow> 's \<Rightarrow> (unit, 's) run" where
  "for_each f [] s = Done () s"
| "for_each f (x # xs) s = bind_run (f x s) (\<lambda>_. for_each f xs)"

text \<open>\<open>run_all P r\<close>: the state of \<open>r\<close> satisfies \<open>P\<close>, whether \<open>r\<close> finished or not.\<close>

fun run_all :: "('s \<Rightarrow> bool) \<Rightarrow> ('a, 's) run \<Rightarrow> bool" where
  "run_all P (Done a s) = P s"
| "run_all P (Blocked s) = P s"

fun run_state :: "('a, 's) run \<Rightarrow> 's" where
  "run_state (Done a s) = s"
| "run_state (Blocked s) = s"

fun completes :: "('a, 's) run \<Rightarrow> bool" where
  "completes (Done a s) = True"
| "completes (Blocked s) = False"

lemmas run_eval [run_simps] =
  bind_run.simps for_each.simps run_all.simps run_state.simps completes.simps

lemma run_all_state: "run_all P r \<longleftrightarrow> P (run_state r)"
  by (cases r) auto

lemma run_all_bind:
  assumes "run_all P r" "\<And>a s. P s \<Longrightarrow> run_all P (f a s)"
  shows "run_all P (bind_run r f)"
  using assms by (cases r) auto

lemma run_state_return [simp]:
  "run_state (bind_run r (\<lambda>_. Done x)) = run_state r"
  "run_all P (bind_run r (\<lambda>_. Done x)) = run_all P r"
  "completes (bind_run r (\<lambda>_. Done x)) = completes r"
  by (cases r; simp)+

lemma bind_run_Done_iff:
  "bind_run r f = Done b s' \<longleftrightarrow> (\<exists>a s. r = Done a s \<and> f a s = Done b s')"
  by (cases r) auto

lemma run_all_Done: "run_all P r \<Longrightarrow> r = Done a s \<Longrightarrow> P s"
  by simp

lemma run_all_for_each:
  assumes "P s" "\<And>x s. x \<in> set xs \<Longrightarrow> P s \<Longrightarrow> run_all P (f x s)"
  shows "run_all P (for_each f xs s)"
  using assms
proof (induction xs arbitrary: s)
  case (Cons x xs)
  then show ?case by (auto intro!: run_all_bind [where P = P])
qed simp

lemma run_all_mono: "run_all P r \<Longrightarrow> (\<And>s. P s \<Longrightarrow> Q s) \<Longrightarrow> run_all Q r"
  by (cases r) auto

lemma completes_bind:
  "completes (bind_run r f) \<longleftrightarrow> (\<exists>a s. r = Done a s \<and> completes (f a s))"
  by (cases r) auto

lemma completes_for_each:
  assumes "P s" "\<And>x s. x \<in> set xs \<Longrightarrow> P s \<Longrightarrow> completes (f x s) \<and> P (run_state (f x s))"
  shows "completes (for_each f xs s) \<and> P (run_state (for_each f xs s))"
  using assms
proof (induction xs arbitrary: s)
  case (Cons x xs)
  from Cons.prems have "completes (f x s)" "P (run_state (f x s))" by auto
  with Cons show ?case by (cases "f x s") auto
qed simp

lemma for_each_append:
  "for_each f (xs @ ys) s = bind_run (for_each f xs s) (\<lambda>_. for_each f ys)"
proof (induction xs arbitrary: s)
  case (Cons x xs)
  then show ?case by (cases "f x s") auto
qed simp

section \<open>Finite maps and sets\<close>

lemma set_map_of_sorted_fmap: "set (sorted_list_of_fmap m) = {(k, v). fmlookup m k = Some v}"
proof -
  have "(k, v) \<in> set (sorted_list_of_fmap m) \<longleftrightarrow> fmlookup m k = Some v" for k v
  proof -
    have "distinct (map fst (sorted_list_of_fmap m))"
      by (simp add: sorted_list_of_fmap_def comp_def sorted_list_of_fset.rep_eq)
    then have "map_of (sorted_list_of_fmap m) k = Some v \<longleftrightarrow> (k, v) \<in> set (sorted_list_of_fmap m)"
      by (rule map_of_eq_Some_iff)
    then show ?thesis by (simp only: map_of_sorted_list)
  qed
  then show ?thesis by auto
qed

lemma in_fset_of_list [simp]: "x |\<in>| fset_of_list xs \<longleftrightarrow> x \<in> set xs"
  by (simp add: fset_of_list_elem)

lemma sorted_list_of_fset_finsert:
  "sorted_list_of_fset (finsert x A) = insort x (sorted_list_of_fset (A |-| {|x|}))"
  by (simp add: sorted_list_of_fset.rep_eq)

end
