(* ===== verification/Api_Objects.thy ===== *)
theory Api_Objects
  imports Go_Prelude
begin

text \<open>
  The Kubernetes objects the sources read, with the fields they read (vendored types of
  \<^verbatim>\<open>k8s.io/api/rbac/v1\<close>, \<^verbatim>\<open>k8s.io/apiserver\<close> and the open-cluster-management API), the
  listers that serve them and the contract every lister keeps.
\<close>

section \<open>RBAC objects\<close>

text \<open>\<^verbatim>\<open>rbacv1.PolicyRule\<close>, \<^verbatim>\<open>Subject\<close>, \<^verbatim>\<open>RoleRef\<close>, \<^verbatim>\<open>ClusterRole\<close>, \<^verbatim>\<open>ClusterRoleBinding\<close>.\<close>

record policy_rule =
  Verbs :: "string list"
  APIGroups :: "string list"
  Resources :: "string list"
  ResourceNames :: "string list"
  NonResourceURLs :: "string list"

record subject =
  Kind :: string
  APIGroup :: string
  Name :: string
  Namespace :: string

record role_ref =
  ref_APIGroup :: string
  ref_Kind :: string
  ref_Name :: string

record cluster_role =
  role_Name :: string
  role_UID :: string
  role_ResourceVersion :: string
  role_Rules :: "policy_rule list"

record cluster_role_binding =
  binding_Name :: string
  binding_UID :: string
  binding_ResourceVersion :: string
  binding_Subjects :: "subject list"
  binding_RoleRef :: role_ref

definition VerbAll :: string where "VerbAll = ''*''"
definition APIGroupAll :: string where "APIGroupAll = ''*''"
definition ResourceAll :: string where "ResourceAll = ''*''"
definition NonResourceAll :: string where "NonResourceAll = ''*''"
definition GroupKind :: string where "GroupKind = ''Group''"
definition UserKind :: string where "UserKind = ''User''"
definition ServiceAccountKind :: string where "ServiceAccountKind = ''ServiceAccount''"
definition RbacGroupName :: string where "RbacGroupName = ''rbac.authorization.k8s.io''"
definition SystemPrivilegedGroup :: string where "SystemPrivilegedGroup = ''system:masters''"

lemmas rbac_constants =
  VerbAll_def APIGroupAll_def ResourceAll_def NonResourceAll_def GroupKind_def UserKind_def
  ServiceAccountKind_def RbacGroupName_def SystemPrivilegedGroup_def

section \<open>Request attributes and users\<close>

text \<open>\<^verbatim>\<open>authorizer.AttributesRecord\<close> without the user, which the sources never set.\<close>

record attributes =
  attr_Verb :: string
  attr_Namespace :: string
  attr_APIGroup :: string
  attr_Resource :: string
  attr_Subresource :: string
  attr_Name :: string
  attr_ResourceRequest :: bool
  attr_Path :: string

text \<open>\<^verbatim>\<open>user.Info\<close>: name, groups, and the extra attributes of the token.\<close>

record user_info =
  user_Name :: string
  user_Groups :: "string list"
  user_Extra :: "(string, string list) fmap"

text \<open>\<open>userInfo.GetExtra()[key]\<close>: a missing key reads as the nil slice.\<close>

definition user_extra :: "user_info \<Rightarrow> string \<Rightarrow> string list" where
  "user_extra u key = (case fmlookup (user_Extra u) key of None \<Rightarrow> [] | Some vs \<Rightarrow> vs)"

section \<open>Managed clusters and cluster sets\<close>

text \<open>
  Both kinds of object carry metadata and a specification and status nobody in the sources
  looks at; the latter is kept as an opaque text, empty in the zero value of the Go type.
\<close>

type_synonym label_set = "(string, string) fmap"

record object_meta =
  meta_Name :: string
  meta_ResourceVersion :: string
  meta_Labels :: label_set

record managed_cluster =
  mc_Meta :: object_meta
  mc_Body :: string

record managed_cluster_set =
  mcs_Meta :: object_meta
  mcs_Body :: string

text \<open>
  \<open>runtime.Object\<close>: the dynamic types that occur. Only clusters and cluster sets have
  metadata; \<open>Status\<close> is \<^verbatim>\<open>metav1.Status\<close> with the error whose text is its message.
\<close>

datatype api_object =
    ManagedCluster managed_cluster
  | ManagedClusterSet managed_cluster_set

datatype runtime_object =
    Item api_object
  | ManagedClusterList "managed_cluster list"
  | ManagedClusterSetList "managed_cluster_set list"
  | Status string go_error

definition ClusterName :: "managed_cluster \<Rightarrow> string" where
  "ClusterName c = meta_Name (mc_Meta c)"

definition ClusterSetName :: "managed_cluster_set \<Rightarrow> string" where
  "ClusterSetName c = meta_Name (mcs_Meta c)"

text \<open>\<open>meta.Accessor\<close> on the objects that have metadata, and \<open>meta.ExtractList\<close>.\<close>

fun accessor :: "api_object \<Rightarrow> object_meta" where
  "accessor (ManagedCluster c) = mc_Meta c"
| "accessor (ManagedClusterSet c) = mcs_Meta c"

definition GetName :: "api_object \<Rightarrow> string" where
  "GetName object = meta_Name (accessor object)"

definition GetResourceVersion :: "api_object \<Rightarrow> string" where
  "GetResourceVersion object = meta_ResourceVersion (accessor object)"

fun ExtractList :: "runtime_object \<Rightarrow> api_object list result" where
  "ExtractList (ManagedClusterList cs) = Inr (map ManagedCluster cs)"
| "ExtractList (ManagedClusterSetList cs) = Inr (map ManagedClusterSet cs)"
| "ExtractList _ = Inl (ErrorText ''object is not a list'')"

section \<open>Label selectors\<close>

text \<open>A \<^verbatim>\<open>labels.Selector\<close> is the predicate of its method \<open>Matches\<close>.\<close>

type_synonym selector = "label_set \<Rightarrow> bool"

definition Everything :: selector where
  "Everything ls = True"

lemma Everything_matches [simp]: "Everything ls"
  by (simp add: Everything_def)

section \<open>Listers\<close>

text \<open>
  A generated client-go lister: \<open>List(labels.Everything())\<close> and \<open>Get(name)\<close>.
\<close>

record 'a lister =
  lister_List :: "'a list result"
  lister_Get :: "string \<Rightarrow> 'a result"

text \<open>
  The informer-backed lister (\<^verbatim>\<open>clusterRoleLister.List/Get\<close> and its generated siblings):
  the store of the informer is keyed by name, \<open>List\<close> ranges over it, \<open>Get\<close> looks one key
  up and reports a missing key as NotFound. \<open>ord\<close> is the order of the range.
\<close>

definition indexer_List :: "('a list \<Rightarrow> 'a list) \<Rightarrow> (string, 'a) fmap \<Rightarrow> 'a list result" where
  "indexer_List ord idx = Inr (ord (map snd (sorted_list_of_fmap idx)))"

definition indexer_Get :: "string \<Rightarrow> (string, 'a) fmap \<Rightarrow> string \<Rightarrow> 'a result" where
  "indexer_Get resource idx name =
     (case fmlookup idx name of None \<Rightarrow> Inl (NotFound resource name) | Some x \<Rightarrow> Inr x)"

definition indexer_lister ::
  "string \<Rightarrow> ('a list \<Rightarrow> 'a list) \<Rightarrow> (string, 'a) fmap \<Rightarrow> 'a lister" where
  "indexer_lister resource ord idx =
     \<lparr>lister_List = indexer_List ord idx, lister_Get = indexer_Get resource idx\<rparr>"

lemma indexer_lister_simps [simp]:
  "lister_List (indexer_lister resource ord idx) = indexer_List ord idx"
  "lister_Get (indexer_lister resource ord idx) = indexer_Get resource idx"
  by (simp_all add: indexer_lister_def)

text \<open>What an informer guarantees of its store: every object is filed under its own name.\<close>

definition keyed_by :: "('a \<Rightarrow> string) \<Rightarrow> (string, 'a) fmap \<Rightarrow> bool" where
  "keyed_by name_of idx \<longleftrightarrow> (\<forall>k x. fmlookup idx k = Some x \<longrightarrow> name_of x = k)"

lemma keyed_by_empty [simp]: "keyed_by f fmempty"
  by (simp add: keyed_by_def)

lemma keyed_by_upd: "keyed_by f m \<Longrightarrow> f x = k \<Longrightarrow> keyed_by f (fmupd k x m)"
  by (auto simp: keyed_by_def)

lemma keyed_by_drop: "keyed_by f m \<Longrightarrow> keyed_by f (fmdrop k m)"
  by (auto simp: keyed_by_def split: if_splits)

lemma keyed_byD: "keyed_by f m \<Longrightarrow> fmlookup m k = Some x \<Longrightarrow> f x = k"
  by (auto simp: keyed_by_def)

lemma set_indexer_List:
  "range_order ord \<Longrightarrow> indexer_List ord idx = Inr xs \<Longrightarrow> set xs = {x. \<exists>k. fmlookup idx k = Some x}"
  by (force simp: indexer_List_def set_map_of_sorted_fmap)

text \<open>
  The contract of a lister, for any kind of object: \<open>Get\<close> and \<open>List\<close> answer from the
  same store, and \<open>Get\<close> returns an object of the name asked for.
\<close>

locale lister_contract =
  fixes name_of :: "'a \<Rightarrow> string"
    and listAll :: "'a list result"
    and get :: "string \<Rightarrow> 'a result"
  assumes get_name: "get n = Inr x \<Longrightarrow> name_of x = n"
    and get_listed: "get n = Inr x \<Longrightarrow> listAll = Inr xs \<Longrightarrow> x \<in> set xs"
    and listed_get: "listAll = Inr xs \<Longrightarrow> x \<in> set xs \<Longrightarrow> get (name_of x) = Inr x"
begin

lemma in_list_iff: "listAll = Inr xs \<Longrightarrow> x \<in> set xs \<longleftrightarrow> get (name_of x) = Inr x"
  using get_listed listed_get by blast

lemma listed_name_iff: "listAll = Inr xs \<Longrightarrow> n \<in> name_of ` set xs \<longleftrightarrow> (\<exists>x. get n = Inr x)"
  by (metis get_listed get_name image_iff listed_get)

lemma listed_unique:
  "listAll = Inr xs \<Longrightarrow> x \<in> set xs \<Longrightarrow> y \<in> set xs \<Longrightarrow> name_of x = name_of y \<Longrightarrow> x = y"
  by (metis listed_get sum.inject(2))

end

lemma indexer_lister_contract:
  assumes "keyed_by name_of idx" "range_order ord"
  shows "lister_contract name_of (indexer_List ord idx) (indexer_Get resource idx)"
proof
  fix n x xs
  show "indexer_Get resource idx n = Inr x \<Longrightarrow> name_of x = n"
    using assms by (auto simp: indexer_Get_def keyed_by_def split: option.splits)
  show "x \<in> set xs" if "indexer_Get resource idx n = Inr x" "indexer_List ord idx = Inr xs"
    using that set_indexer_List [OF assms(2)]
    by (fastforce simp: indexer_Get_def split: option.splits)
  show "indexer_Get resource idx (name_of x) = Inr x" if "indexer_List ord idx = Inr xs" "x \<in> set xs"
    using that assms set_indexer_List [OF assms(2) that(1)]
    by (auto simp: indexer_Get_def keyed_by_def)
qed

text \<open>
  An interpretation without conditions: the indexer built by filing a list of objects under
  their names, which is how an informer fills its store.
\<close>

definition file_objects :: "('a \<Rightarrow> string) \<Rightarrow> 'a list \<Rightarrow> (string, 'a) fmap" where
  "file_objects name_of xs = fold (\<lambda>x m. fmupd (name_of x) x m) xs fmempty"

lemma keyed_by_fold: "keyed_by f m \<Longrightarrow> keyed_by f (fold (\<lambda>x m. fmupd (f x) x m) xs m)"
  by (induction xs arbitrary: m) (auto simp: keyed_by_upd)

lemma keyed_by_file_objects [simp]: "keyed_by f (file_objects f xs)"
  by (simp add: file_objects_def keyed_by_fold)

interpretation filed: lister_contract f "indexer_List id (file_objects f xs)"
    "indexer_Get resource (file_objects f xs)" for f xs resource
  by (rule indexer_lister_contract) simp_all

end
