(* ===== verification/Rbac_Allow.thy ===== *)
theory Rbac_Allow
  imports Api_Objects
begin

text \<open>
  \<^verbatim>\<open>pkg/cache/rbac/allow.go\<close>: does a policy rule, or a list of rules, allow a request?
  The matchers are the loops of the source; the lemmas characterise them without loops.
\<close>

section \<open>The matchers\<close>

fun verb_loop :: "string list \<Rightarrow> string \<Rightarrow> bool" where
  "verb_loop [] requestedVerb = False"
| "verb_loop (ruleVerb # rest) requestedVerb =
     (if ruleVerb = VerbAll then True
      else if ruleVerb = requestedVerb then True
      else verb_loop rest requestedVerb)"

definition VerbMatches :: "policy_rule \<Rightarrow> string \<Rightarrow> bool" where
  "VerbMatches rule requestedVerb = verb_loop (Verbs rule) requestedVerb"

fun group_loop :: "string list \<Rightarrow> string \<Rightarrow> bool" where
  "group_loop [] requestedGroup = False"
| "group_loop (ruleGroup # rest) requestedGroup =
     (if ruleGroup = APIGroupAll then True
      else if ruleGroup = requestedGroup then True
      else group_loop rest requestedGroup)"

definition APIGroupMatches :: "policy_rule \<Rightarrow> string \<Rightarrow> bool" where
  "APIGroupMatches rule requestedGroup = group_loop (APIGroups rule) requestedGroup"

fun resource_loop :: "string list \<Rightarrow> string \<Rightarrow> string \<Rightarrow> bool" where
  "resource_loop [] combinedRequestedResource requestedSubresource = False"
| "resource_loop (ruleResource # rest) combinedRequestedResource requestedSubresource =
     (if ruleResource = ResourceAll then True
      else if ruleResource = combinedRequestedResource then True
      else if length requestedSubresource = 0
        then resource_loop rest combinedRequestedResource requestedSubresource
      else if length ruleResource = length requestedSubresource + 2
          \<and> hasPrefix ruleResource ''*/'' \<and> hasSuffix ruleResource requestedSubresource then True
      else resource_loop rest combinedRequestedResource requestedSubresource)"

definition ResourceMatches :: "policy_rule \<Rightarrow> string \<Rightarrow> string \<Rightarrow> bool" where
  "ResourceMatches rule combinedRequestedResource requestedSubresource =
     resource_loop (Resources rule) combinedRequestedResource requestedSubresource"

fun name_loop :: "string list \<Rightarrow> string \<Rightarrow> bool" where
  "name_loop [] requestedName = False"
| "name_loop (ruleName # rest) requestedName =
     (if ruleName = requestedName then True else name_loop rest requestedName)"

definition ResourceNameMatches :: "policy_rule \<Rightarrow> string \<Rightarrow> bool" where
  "ResourceNameMatches rule requestedName =
     (if length (ResourceNames rule) = 0 then True
      else name_loop (ResourceNames rule) requestedName)"

fun url_loop :: "string list \<Rightarrow> string \<Rightarrow> bool" where
  "url_loop [] requestedURL = False"
| "url_loop (ruleURL # rest) requestedURL =
     (if ruleURL = NonResourceAll then True
      else if ruleURL = requestedURL then True
      else if hasSuffix ruleURL ''*'' \<and> hasPrefix requestedURL (trimRight ruleURL (CHR ''*'')) then True
      else url_loop rest requestedURL)"

definition NonResourceURLMatches :: "policy_rule \<Rightarrow> string \<Rightarrow> bool" where
  "NonResourceURLMatches rule requestedURL = url_loop (NonResourceURLs rule) requestedURL"

definition RuleAllows :: "attributes \<Rightarrow> policy_rule \<Rightarrow> bool" where
  "RuleAllows requestAttributes rule =
     (if attr_ResourceRequest requestAttributes then
        let combinedResource =
              (if length (attr_Subresource requestAttributes) > 0
               then attr_Resource requestAttributes @ ''/'' @ attr_Subresource requestAttributes
               else attr_Resource requestAttributes)
        in VerbMatches rule (attr_Verb requestAttributes)
           \<and> APIGroupMatches rule (attr_APIGroup requestAttributes)
           \<and> ResourceMatches rule combinedResource (attr_Subresource requestAttributes)
           \<and> ResourceNameMatches rule (attr_Name requestAttributes)
      else VerbMatches rule (attr_Verb requestAttributes)
           \<and> NonResourceURLMatches rule (attr_Path requestAttributes))"

fun RulesAllow :: "attributes \<Rightarrow> policy_rule list \<Rightarrow> bool" where
  "RulesAllow requestAttributes [] = False"
| "RulesAllow requestAttributes (rule # rules) =
     (if RuleAllows requestAttributes rule then True else RulesAllow requestAttributes rules)"

section \<open>Subjects for display\<close>

text \<open>\<open>SubjectsStrings\<close>: users, groups, service accounts and others, in the order of the list.\<close>

fun subjects_loop ::
  "subject list \<Rightarrow> string list \<times> string list \<times> string list \<times> string list
    \<Rightarrow> string list \<times> string list \<times> string list \<times> string list" where
  "subjects_loop [] acc = acc"
| "subjects_loop (subj # rest) (users, groups, sas, others) =
     (if Kind subj = ServiceAccountKind then
        subjects_loop rest (users, groups, sas @ [Namespace subj @ ''/'' @ Name subj], others)
      else if Kind subj = UserKind then
        subjects_loop rest (users @ [Name subj], groups, sas, others)
      else if Kind subj = GroupKind then
        subjects_loop rest (users, groups @ [Name subj], sas, others)
      else
        subjects_loop rest (users, groups, sas,
          others @ [Kind subj @ ''/'' @ Namespace subj @ ''/'' @ Name subj]))"

definition SubjectsStrings ::
  "subject list \<Rightarrow> string list \<times> string list \<times> string list \<times> string list" where
  "SubjectsStrings subjects = subjects_loop subjects ([], [], [], [])"

section \<open>The matchers without loops\<close>

named_theorems rbac_iff \<open>the matchers as membership conditions\<close>

lemma VerbMatches_iff [rbac_iff]: "VerbMatches rule v \<longleftrightarrow> VerbAll \<in> set (Verbs rule) \<or> v \<in> set (Verbs rule)"
proof -
  have "verb_loop vs v \<longleftrightarrow> VerbAll \<in> set vs \<or> v \<in> set vs" for vs
    by (induction vs) auto
  then show ?thesis by (simp add: VerbMatches_def)
qed

lemma APIGroupMatches_iff [rbac_iff]:
  "APIGroupMatches rule g \<longleftrightarrow> APIGroupAll \<in> set (APIGroups rule) \<or> g \<in> set (APIGroups rule)"
proof -
  have "group_loop gs g \<longleftrightarrow> APIGroupAll \<in> set gs \<or> g \<in> set gs" for gs
    by (induction gs) auto
  then show ?thesis by (simp add: APIGroupMatches_def)
qed

lemma star_slash_eq:
  "length r = length s + 2 \<and> hasPrefix r ''*/'' \<and> hasSuffix r s \<longleftrightarrow> r = ''*/'' @ s"
proof
  assume "length r = length s + 2 \<and> hasPrefix r ''*/'' \<and> hasSuffix r s"
  then show "r = ''*/'' @ s" by (intro prefix_suffix_eq) auto
next
  assume r: "r = ''*/'' @ s"
  then have "hasPrefix r ''*/''" "hasSuffix r s"
    by (simp_all only: hasPrefix_append hasSuffix_append)
  with r show "length r = length s + 2 \<and> hasPrefix r ''*/'' \<and> hasSuffix r s" by simp
qed

lemma ResourceMatches_iff [rbac_iff]:
  "ResourceMatches rule combined sub \<longleftrightarrow>
     ResourceAll \<in> set (Resources rule) \<or> combined \<in> set (Resources rule)
     \<or> (sub \<noteq> [] \<and> ''*/'' @ sub \<in> set (Resources rule))"
proof -
  have "resource_loop rs combined sub \<longleftrightarrow>
      ResourceAll \<in> set rs \<or> combined \<in> set rs \<or> (sub \<noteq> [] \<and> ''*/'' @ sub \<in> set rs)" for rs
  proof (induction rs)
    case (Cons r rs)
    show ?case by (simp only: resource_loop.simps star_slash_eq Cons.IH) auto
  qed simp
  then show ?thesis by (simp add: ResourceMatches_def)
qed

lemma ResourceNameMatches_iff [rbac_iff]:
  "ResourceNameMatches rule n \<longleftrightarrow> ResourceNames rule = [] \<or> n \<in> set (ResourceNames rule)"
proof -
  have "name_loop ns n \<longleftrightarrow> n \<in> set ns" for ns
    by (induction ns) auto
  then show ?thesis by (simp add: ResourceNameMatches_def)
qed

text \<open>A rule URL ending in stars matches every path that starts with what precedes the stars.\<close>

definition url_covers :: "string \<Rightarrow> string \<Rightarrow> bool" where
  "url_covers ruleURL url \<longleftrightarrow>
     ruleURL = NonResourceAll \<or> ruleURL = url
     \<or> (\<exists>stem k tail. 0 < k \<and> ruleURL = stem @ replicate k (CHR ''*'')
          \<and> (stem = [] \<or> last stem \<noteq> CHR ''*'') \<and> url = stem @ tail)"

lemma url_stars_iff:
  "hasSuffix r ''*'' \<and> hasPrefix url (trimRight r (CHR ''*'')) \<longleftrightarrow>
     (\<exists>stem k tail. 0 < k \<and> r = stem @ replicate k (CHR ''*'')
        \<and> (stem = [] \<or> last stem \<noteq> CHR ''*'') \<and> url = stem @ tail)"
  (is "?l \<longleftrightarrow> ?r")
proof
  assume l: ?l
  obtain k where k: "r = trimRight r (CHR ''*'') @ replicate k (CHR ''*'')"
      "trimRight r (CHR ''*'') = [] \<or> last (trimRight r (CHR ''*'')) \<noteq> CHR ''*''"
    using trimRight_decomp by blast
  from l obtain t where t: "r = t @ ''*''" by (auto simp: hasSuffix_iff)
  have "k \<noteq> 0"
  proof
    assume "k = 0"
    with k t show False by (metis append_Nil2 append_is_Nil_conv last_snoc list.distinct(1) replicate_0)
  qed
  with l k show ?r by (auto simp: hasPrefix_iff)
next
  assume ?r
  then obtain stem k tail where r: "0 < k" "r = stem @ replicate k (CHR ''*'')"
      "stem = [] \<or> last stem \<noteq> CHR ''*''" "url = stem @ tail" by blast
  then obtain j where "k = Suc j" by (auto dest: gr0_implies_Suc)
  with r have "r = (stem @ replicate j (CHR ''*'')) @ ''*''"
    by (simp add: replicate_append_same)
  then have "hasSuffix r ''*''" by (metis hasSuffix_append)
  moreover have "trimRight r (CHR ''*'') = stem"
  proof -
    have "dropWhile (\<lambda>x. x = CHR ''*'') (rev r) = dropWhile (\<lambda>x. x = CHR ''*'') (rev stem)"
      using r(2) by (simp add: dropWhile_append)
    also have "\<dots> = rev stem"
      using r(3) by (cases "rev stem") (auto simp: last_rev [symmetric] dest: arg_cong [where f = rev])
    finally show ?thesis by (simp add: trimRight_def)
  qed
  ultimately show ?l using r(4) by simp
qed

lemma NonResourceURLMatches_iff [rbac_iff]:
  "NonResourceURLMatches rule url \<longleftrightarrow> (\<exists>r \<in> set (NonResourceURLs rule). url_covers r url)"
proof -
  have "url_loop rs url \<longleftrightarrow> (\<exists>r \<in> set rs. url_covers r url)" for rs
    by (induction rs) (auto simp only: url_loop.simps url_stars_iff url_covers_def set_simps bex_simps
        split: if_splits)
  then show ?thesis by (simp add: NonResourceURLMatches_def)
qed

lemma RulesAllow_iff [rbac_iff]: "RulesAllow attrs rules \<longleftrightarrow> (\<exists>r \<in> set rules. RuleAllows attrs r)"
  by (induction rules) auto

lemma RulesAllow_mono: "set rules \<subseteq> set rules' \<Longrightarrow> RulesAllow attrs rules \<Longrightarrow> RulesAllow attrs rules'"
  by (auto simp: RulesAllow_iff)

lemma RulesAllow_append: "RulesAllow attrs (rs @ rs') \<longleftrightarrow> RulesAllow attrs rs \<or> RulesAllow attrs rs'"
  by (auto simp: RulesAllow_iff)

end
