(* ===== verification/Rbac_Review.thy ===== *)
theory Rbac_Review
  imports Rbac_Allow
begin

text \<open>
  \<^verbatim>\<open>pkg/cache/rbac/subject_locator.go\<close> and \<^verbatim>\<open>reviewer.go\<close>: who may get a named resource.
  \<open>AllowedSubjects\<close> collects the subjects of every cluster role binding whose role allows
  the request; \<open>Review\<close> turns them into user and group names. The specification
  \<open>may_get_user\<close>, \<open>may_get_group\<close> is the access relation of RBAC over the two listers, and
  the lemmas show that a review decides exactly this relation.
\<close>

section \<open>Subject locator\<close>

record subject_access_evaluator =
  superUser :: string
  clusterRoleBindingLister :: "cluster_role_binding lister"
  clusterRoleLister :: "cluster_role lister"

definition NewSubjectAccessEvaluator ::
  "cluster_role lister \<Rightarrow> cluster_role_binding lister \<Rightarrow> string \<Rightarrow> subject_access_evaluator" where
  "NewSubjectAccessEvaluator clusterRoles clusterRoleBindings super =
     \<lparr>superUser = super, clusterRoleBindingLister = clusterRoleBindings,
      clusterRoleLister = clusterRoles\<rparr>"

definition getRulesFromRoleRef :: "subject_access_evaluator \<Rightarrow> role_ref \<Rightarrow> policy_rule list result" where
  "getRulesFromRoleRef r ref =
     (case lister_Get (clusterRoleLister r) (ref_Name ref) of
        Inl err \<Rightarrow> Inl err
      | Inr clusterRole \<Rightarrow> Inr (role_Rules clusterRole))"

fun bindings_loop ::
  "subject_access_evaluator \<Rightarrow> attributes \<Rightarrow> cluster_role_binding list
    \<Rightarrow> subject list \<times> go_error list \<Rightarrow> subject list \<times> go_error list" where
  "bindings_loop r requestAttributes [] acc = acc"
| "bindings_loop r requestAttributes (binding # rest) (subjects, errorlist) =
     (case getRulesFromRoleRef r (binding_RoleRef binding) of
        Inl err \<Rightarrow> bindings_loop r requestAttributes rest (subjects, errorlist @ [err])
      | Inr rules \<Rightarrow>
          if RulesAllow requestAttributes rules
          then bindings_loop r requestAttributes rest (subjects @ binding_Subjects binding, errorlist)
          else bindings_loop r requestAttributes rest (subjects, errorlist))"

definition privileged_subjects :: "subject_access_evaluator \<Rightarrow> subject list" where
  "privileged_subjects r =
     (let subjects = [\<lparr>Kind = GroupKind, APIGroup = RbacGroupName, Name = SystemPrivilegedGroup,
                       Namespace = []\<rparr>]
      in if length (superUser r) > 0
         then subjects @ [\<lparr>Kind = UserKind, APIGroup = RbacGroupName, Name = superUser r,
                           Namespace = []\<rparr>]
         else subjects)"

definition AllowedSubjects ::
  "subject_access_evaluator \<Rightarrow> attributes \<Rightarrow> subject list \<times> go_error option" where
  "AllowedSubjects r requestAttributes =
     (let (subjects, errorlist) =
        (case lister_List (clusterRoleBindingLister r) of
           Inl err \<Rightarrow> (privileged_subjects r, [err])
         | Inr clusterRoleBindings \<Rightarrow>
             bindings_loop r requestAttributes clusterRoleBindings (privileged_subjects r, []))
      in (subjects, NewAggregate errorlist))"

section \<open>Reviewer\<close>

text \<open>\<^verbatim>\<open>serviceaccount.MakeUsername\<close> and \<^verbatim>\<open>authorizationutil.RBACSubjectsToUsersAndGroups\<close>.\<close>

definition MakeUsername :: "string \<Rightarrow> string \<Rightarrow> string" where
  "MakeUsername namespace name = ''system:serviceaccount:'' @ namespace @ '':'' @ name"

fun RBACSubjectsToUsersAndGroups ::
  "subject list \<Rightarrow> string \<Rightarrow> string list \<times> string list \<Rightarrow> string list \<times> string list" where
  "RBACSubjectsToUsersAndGroups [] defaultNamespace acc = acc"
| "RBACSubjectsToUsersAndGroups (subj # rest) defaultNamespace (users, groups) =
     (if APIGroup subj = RbacGroupName \<and> Kind subj = GroupKind then
        RBACSubjectsToUsersAndGroups rest defaultNamespace (users, groups @ [Name subj])
      else if APIGroup subj = RbacGroupName \<and> Kind subj = UserKind then
        RBACSubjectsToUsersAndGroups rest defaultNamespace (users @ [Name subj], groups)
      else if APIGroup subj = [] \<and> Kind subj = ServiceAccountKind then
        (let ns = (if length (Namespace subj) > 0 then Namespace subj else defaultNamespace)
         in if length ns > 0
            then RBACSubjectsToUsersAndGroups rest defaultNamespace
                   (users @ [MakeUsername ns (Name subj)], groups)
            else RBACSubjectsToUsersAndGroups rest defaultNamespace (users, groups))
      else RBACSubjectsToUsersAndGroups rest defaultNamespace (users, groups))"

text \<open>The \<open>Review\<close> interface and its only implementation \<open>defaultReview\<close>; the text of the
  evaluation error is kept as the error it renders.\<close>

record review =
  review_Users :: "string list"
  review_Groups :: "string list"
  review_EvaluationError :: "go_error option"

definition review_action :: "string \<Rightarrow> string \<Rightarrow> string \<Rightarrow> attributes" where
  "review_action grp resource name =
     \<lparr>attr_Verb = ''get'', attr_Namespace = [], attr_APIGroup = grp, attr_Resource = resource,
      attr_Subresource = [], attr_Name = name, attr_ResourceRequest = True, attr_Path = []\<rparr>"

definition Review ::
  "subject_access_evaluator \<Rightarrow> string \<Rightarrow> string \<Rightarrow> string \<Rightarrow> review result" where
  "Review r grp resource name =
     (let action = review_action grp resource name;
          (subjects, err) = AllowedSubjects r action;
          (users, groups) = RBACSubjectsToUsersAndGroups subjects (attr_Namespace action) ([], [])
      in Inr \<lparr>review_Users = users, review_Groups = groups, review_EvaluationError = err\<rparr>)"

section \<open>The access relation\<close>

definition rule_grants_get :: "policy_rule \<Rightarrow> string \<Rightarrow> string \<Rightarrow> string \<Rightarrow> bool" where
  "rule_grants_get rule grp resource name \<longleftrightarrow>
     set (Verbs rule) \<inter> {VerbAll, ''get''} \<noteq> {}
     \<and> set (APIGroups rule) \<inter> {APIGroupAll, grp} \<noteq> {}
     \<and> set (Resources rule) \<inter> {ResourceAll, resource} \<noteq> {}
     \<and> (ResourceNames rule = [] \<or> name \<in> set (ResourceNames rule))"

text \<open>A subject is granted the resource by some binding whose role resolves.\<close>

definition subject_granted ::
  "subject_access_evaluator \<Rightarrow> string \<Rightarrow> string \<Rightarrow> string \<Rightarrow> subject \<Rightarrow> bool" where
  "subject_granted r grp resource name subj \<longleftrightarrow>
     (\<exists>bindings binding role rule.
        lister_List (clusterRoleBindingLister r) = Inr bindings \<and> binding \<in> set bindings
        \<and> lister_Get (clusterRoleLister r) (ref_Name (binding_RoleRef binding)) = Inr role
        \<and> rule \<in> set (role_Rules role) \<and> rule_grants_get rule grp resource name
        \<and> subj \<in> set (binding_Subjects binding))"

definition names_user :: "subject \<Rightarrow> string \<Rightarrow> bool" where
  "names_user subj u \<longleftrightarrow>
     (APIGroup subj = RbacGroupName \<and> Kind subj = UserKind \<and> u = Name subj)
     \<or> (APIGroup subj = [] \<and> Kind subj = ServiceAccountKind \<and> Namespace subj \<noteq> []
          \<and> u = MakeUsername (Namespace subj) (Name subj))"

definition names_group :: "subject \<Rightarrow> string \<Rightarrow> bool" where
  "names_group subj g \<longleftrightarrow> APIGroup subj = RbacGroupName \<and> Kind subj = GroupKind \<and> g = Name subj"

definition may_get_user ::
  "subject_access_evaluator \<Rightarrow> string \<Rightarrow> string \<Rightarrow> string \<Rightarrow> string \<Rightarrow> bool" where
  "may_get_user r grp resource name u \<longleftrightarrow>
     (superUser r \<noteq> [] \<and> u = superUser r)
     \<or> (\<exists>subj. subject_granted r grp resource name subj \<and> names_user subj u)"

definition may_get_group ::
  "subject_access_evaluator \<Rightarrow> string \<Rightarrow> string \<Rightarrow> string \<Rightarrow> string \<Rightarrow> bool" where
  "may_get_group r grp resource name g \<longleftrightarrow>
     g = SystemPrivilegedGroup
     \<or> (\<exists>subj. subject_granted r grp resource name subj \<and> names_group subj g)"

section \<open>A review decides the access relation\<close>

lemma RuleAllows_get:
  "RuleAllows (review_action grp resource name) rule \<longleftrightarrow> rule_grants_get rule grp resource name"
  by (auto simp: RuleAllows_def review_action_def rule_grants_get_def rbac_iff)

lemma bindings_loop_subjects:
  "set (fst (bindings_loop r a bs (ss, es))) =
     set ss \<union> {subj. \<exists>b \<in> set bs. \<exists>rules. getRulesFromRoleRef r (binding_RoleRef b) = Inr rules
                 \<and> RulesAllow a rules \<and> subj \<in> set (binding_Subjects b)}"
  by (induction r a bs "(ss, es)" arbitrary: ss es rule: bindings_loop.induct)
    (auto split: sum.splits)

lemma bindings_loop_errors:
  "snd (bindings_loop r a bs (ss, es)) =
     es @ concat (map (\<lambda>b. case getRulesFromRoleRef r (binding_RoleRef b) of
                             Inl e \<Rightarrow> [e] | Inr _ \<Rightarrow> []) bs)"
  by (induction r a bs "(ss, es)" arbitrary: ss es rule: bindings_loop.induct)
    (auto split: sum.splits)

lemma getRules_granted:
  "(\<exists>rules. getRulesFromRoleRef r ref = Inr rules \<and> RulesAllow (review_action g res n) rules) \<longleftrightarrow>
     (\<exists>role rule. lister_Get (clusterRoleLister r) (ref_Name ref) = Inr role
        \<and> rule \<in> set (role_Rules role) \<and> rule_grants_get rule g res n)"
  by (auto simp: getRulesFromRoleRef_def RulesAllow_iff RuleAllows_get split: sum.splits)

lemma getRules_ok_iff:
  "(\<exists>rules. getRulesFromRoleRef r ref = Inr rules) \<longleftrightarrow>
     (\<exists>cr. lister_Get (clusterRoleLister r) (ref_Name ref) = Inr cr)"
  by (auto simp: getRulesFromRoleRef_def split: sum.splits)

lemma AllowedSubjects_set:
  "set (fst (AllowedSubjects r (review_action g res n))) =
     set (privileged_subjects r) \<union> {subj. subject_granted r g res n subj}"
proof (cases "lister_List (clusterRoleBindingLister r)")
  case (Inl e)
  then show ?thesis by (simp add: AllowedSubjects_def subject_granted_def)
next
  case (Inr bs)
  have "set (fst (AllowedSubjects r (review_action g res n))) =
      set (fst (bindings_loop r (review_action g res n) bs (privileged_subjects r, [])))"
    by (simp add: AllowedSubjects_def Inr split: prod.splits)
  also have "\<dots> = set (privileged_subjects r) \<union>
      {subj. \<exists>b \<in> set bs. (\<exists>rules. getRulesFromRoleRef r (binding_RoleRef b) = Inr rules
          \<and> RulesAllow (review_action g res n) rules) \<and> subj \<in> set (binding_Subjects b)}"
    by (auto simp: bindings_loop_subjects)
  also have "\<dots> = set (privileged_subjects r) \<union> {subj. subject_granted r g res n subj}"
    unfolding getRules_granted by (auto simp: subject_granted_def Inr)
  finally show ?thesis .
qed

lemma subjects_to_users:
  "set (fst (RBACSubjectsToUsersAndGroups ss [] (us, gs))) = set us \<union> {u. \<exists>s \<in> set ss. names_user s u}"
  by (induction ss "[] :: string" "(us, gs)" arbitrary: us gs rule: RBACSubjectsToUsersAndGroups.induct)
    (auto simp: names_user_def Let_def rbac_constants)

lemma subjects_to_groups:
  "set (snd (RBACSubjectsToUsersAndGroups ss [] (us, gs))) = set gs \<union> {g. \<exists>s \<in> set ss. names_group s g}"
  by (induction ss "[] :: string" "(us, gs)" arbitrary: us gs rule: RBACSubjectsToUsersAndGroups.induct)
    (auto simp: names_group_def Let_def rbac_constants)

lemma privileged_users:
  "(\<exists>s \<in> set (privileged_subjects r). names_user s u) \<longleftrightarrow> superUser r \<noteq> [] \<and> u = superUser r"
  by (auto simp: privileged_subjects_def names_user_def Let_def rbac_constants split: if_splits)

lemma privileged_groups:
  "(\<exists>s \<in> set (privileged_subjects r). names_group s g) \<longleftrightarrow> g = SystemPrivilegedGroup"
  by (auto simp: privileged_subjects_def names_group_def Let_def rbac_constants split: if_splits)

lemma Review_eq:
  "Review r g res n = Inr
     \<lparr>review_Users = fst (RBACSubjectsToUsersAndGroups
        (fst (AllowedSubjects r (review_action g res n))) [] ([], [])),
      review_Groups = snd (RBACSubjectsToUsersAndGroups
        (fst (AllowedSubjects r (review_action g res n))) [] ([], [])),
      review_EvaluationError = snd (AllowedSubjects r (review_action g res n))\<rparr>"
  by (simp add: Review_def review_action_def Let_def split: prod.splits)

lemma Review_decides:
  assumes "Review r g res n = Inr rv"
  shows "u \<in> set (review_Users rv) \<longleftrightarrow> may_get_user r g res n u"
    and "gr \<in> set (review_Groups rv) \<longleftrightarrow> may_get_group r g res n gr"
proof -
  show "u \<in> set (review_Users rv) \<longleftrightarrow> may_get_user r g res n u"
    using assms privileged_users [of r u]
    by (auto simp: Review_eq subjects_to_users AllowedSubjects_set may_get_user_def)
  show "gr \<in> set (review_Groups rv) \<longleftrightarrow> may_get_group r g res n gr"
    using assms privileged_groups [of r gr]
    by (auto simp: Review_eq subjects_to_groups AllowedSubjects_set may_get_group_def)
qed

text \<open>
  The contract the caches rely on: a reviewer answers every request, and its answer is the
  access relation it stands for.
\<close>

locale reviewer_contract =
  fixes rev_fun :: "string \<Rightarrow> string \<Rightarrow> string \<Rightarrow> review result"
    and user_access :: "string \<Rightarrow> string \<Rightarrow> string \<Rightarrow> string \<Rightarrow> bool"
    and group_access :: "string \<Rightarrow> string \<Rightarrow> string \<Rightarrow> string \<Rightarrow> bool"
  assumes answers: "\<exists>rv. rev_fun g res n = Inr rv"
    and users_iff: "rev_fun g res n = Inr rv \<Longrightarrow> u \<in> set (review_Users rv) \<longleftrightarrow> user_access g res n u"
    and groups_iff: "rev_fun g res n = Inr rv \<Longrightarrow> gr \<in> set (review_Groups rv) \<longleftrightarrow> group_access g res n gr"
begin

lemma never_fails: "rev_fun g res n \<noteq> Inl e"
  using answers [of g res n] by auto

lemma same_access_same_users:
  "rev_fun g res n = Inr rv \<Longrightarrow> rev_fun g res m = Inr rw
    \<Longrightarrow> (\<And>u. user_access g res n u = user_access g res m u)
    \<Longrightarrow> set (review_Users rv) = set (review_Users rw)"
  using users_iff by blast

end

interpretation rbac_reviewer: reviewer_contract "Review r" "may_get_user r" "may_get_group r" for r
  by unfold_locales (simp_all add: Review_decides, simp add: Review_eq)

end
