(* ===== verification/Auth_Store.thy ===== *)
theory Auth_Store
  imports Rbac_Review
begin

text \<open>
  The records and stores of the authorization cache (first and last part of
  \<^verbatim>\<open>pkg/cache/common.go\<close>): review records by resource name, and for users and for groups an
  inverted index from a subject to the names of the resources it can access. A store is
  client-go's \<open>cache.Store\<close>, a map keyed by a key function. The sources keep pointers in
  the stores and change the name sets in place; no record is shared between two keys or two
  stores, so the change is an update of the entry.
\<close>

section \<open>Records\<close>

record subject_record =
  sr_subject :: string
  sr_names :: "string fset"

record review_request =
  rq_name :: string
  rq_resourceVersion :: string
  rq_roleUIDToResourceVersion :: "(string, string) fmap"
  rq_roleBindingUIDToResourceVersion :: "(string, string) fmap"

record review_record =
  rr_request :: review_request
  rr_users :: "string list"
  rr_groups :: "string list"

definition reviewRecordKeyFn :: "review_record \<Rightarrow> string" where
  "reviewRecordKeyFn r = rq_name (rr_request r)"

definition subjectRecordKeyFn :: "subject_record \<Rightarrow> string" where
  "subjectRecordKeyFn r = sr_subject r"

section \<open>Stores\<close>

text \<open>\<^verbatim>\<open>cache.NewStore\<close> with its \<open>Add\<close>, \<open>Delete\<close>, \<open>GetByKey\<close>, \<open>List\<close>.\<close>

definition store_Add :: "('a \<Rightarrow> string) \<Rightarrow> 'a \<Rightarrow> (string, 'a) fmap \<Rightarrow> (string, 'a) fmap" where
  "store_Add keyFn obj st = fmupd (keyFn obj) obj st"

definition store_Delete :: "('a \<Rightarrow> string) \<Rightarrow> 'a \<Rightarrow> (string, 'a) fmap \<Rightarrow> (string, 'a) fmap" where
  "store_Delete keyFn obj st = fmdrop (keyFn obj) st"

definition store_GetByKey :: "(string, 'a) fmap \<Rightarrow> string \<Rightarrow> 'a option result" where
  "store_GetByKey st key = Inr (fmlookup st key)"

definition store_List :: "('a list \<Rightarrow> 'a list) \<Rightarrow> (string, 'a) fmap \<Rightarrow> 'a list" where
  "store_List ord st = ord (map snd (sorted_list_of_fmap st))"

type_synonym subject_store = "(string, subject_record) fmap"
type_synonym review_store = "(string, review_record) fmap"

lemma set_store_List [simp]:
  "range_order ord \<Longrightarrow> set (store_List ord st) = {x. \<exists>k. fmlookup st k = Some x}"
  by (force simp: store_List_def set_map_of_sorted_fmap)

section \<open>The subject index\<close>

fun deleteResourceFromSubjects :: "subject_store \<Rightarrow> string list \<Rightarrow> string \<Rightarrow> subject_store" where
  "deleteResourceFromSubjects st [] name = st"
| "deleteResourceFromSubjects st (subj # subjects) name =
     (case store_GetByKey st subj of
        Inr (Some r) \<Rightarrow>
          (let r' = r\<lparr>sr_names := sr_names r |-| {|name|}\<rparr>;
               st' = fmupd subj r' st
           in deleteResourceFromSubjects
                (if sr_names r' = {||} then store_Delete subjectRecordKeyFn r' st' else st')
                subjects name)
      | _ \<Rightarrow> deleteResourceFromSubjects st subjects name)"

fun addSubjectsToNamespace :: "subject_store \<Rightarrow> string list \<Rightarrow> string \<Rightarrow> subject_store" where
  "addSubjectsToNamespace st [] name = st"
| "addSubjectsToNamespace st (subj # subjects) name =
     (let (item, st') =
        (case store_GetByKey st subj of
           Inr (Some r) \<Rightarrow> (r, st)
         | _ \<Rightarrow> (let item = \<lparr>sr_subject = subj, sr_names = {||}\<rparr>
                in (item, store_Add subjectRecordKeyFn item st)))
      in addSubjectsToNamespace
           (fmupd subj (item\<lparr>sr_names := finsert name (sr_names item)\<rparr>) st') subjects name)"

text \<open>What the index says: the names filed under a subject.\<close>

definition subject_names :: "subject_store \<Rightarrow> string \<Rightarrow> string fset" where
  "subject_names st s = (case fmlookup st s of None \<Rightarrow> {||} | Some r \<Rightarrow> sr_names r)"

text \<open>Well-formed: filed under the own subject, and no empty record is kept.\<close>

definition subject_store_ok :: "subject_store \<Rightarrow> bool" where
  "subject_store_ok st \<longleftrightarrow>
     keyed_by subjectRecordKeyFn st \<and> (\<forall>k r. fmlookup st k = Some r \<longrightarrow> sr_names r \<noteq> {||})"

lemma subject_store_ok_empty [simp]: "subject_store_ok fmempty"
  by (simp add: subject_store_ok_def)

lemma subject_names_empty [simp]: "subject_names fmempty s = {||}"
  by (simp add: subject_names_def)

lemma subject_known_iff:
  "subject_store_ok st \<Longrightarrow> s |\<in>| fmdom st \<longleftrightarrow> subject_names st s \<noteq> {||}"
  by (auto simp: subject_store_ok_def subject_names_def fmdom_notD split: option.splits
      dest: fmdomI fmdomE)

lemma delete_one_ok:
  assumes "subject_store_ok st" "fmlookup st subj = Some r"
    and "r' = r\<lparr>sr_names := sr_names r |-| {|name|}\<rparr>"
    and "st' = (if sr_names r' = {||} then store_Delete subjectRecordKeyFn r' (fmupd subj r' st)
                else fmupd subj r' st)"
  shows "subject_store_ok st' \<and>
     (\<forall>s. subject_names st' s = (if s = subj then subject_names st s |-| {|name|} else subject_names st s))"
proof -
  have key: "subjectRecordKeyFn r' = subj"
    using assms(1-3) by (auto simp: subject_store_ok_def subjectRecordKeyFn_def dest: keyed_byD)
  then show ?thesis
    using assms
    by (auto simp: subject_store_ok_def subject_names_def store_Delete_def keyed_by_def split: if_splits)
qed

lemma delete_names:
  "subject_store_ok st \<Longrightarrow>
     subject_store_ok (deleteResourceFromSubjects st ss name) \<and>
     subject_names (deleteResourceFromSubjects st ss name) s =
       (if s \<in> set ss then subject_names st s |-| {|name|} else subject_names st s)"
proof (induction ss arbitrary: st)
  case (Cons subj ss)
  show ?case
  proof (cases "fmlookup st subj")
    case None
    with Cons show ?thesis by (auto simp: store_GetByKey_def subject_names_def)
  next
    case (Some r)
    define r' where "r' = r\<lparr>sr_names := sr_names r |-| {|name|}\<rparr>"
    define st' where "st' = (if sr_names r' = {||} then store_Delete subjectRecordKeyFn r' (fmupd subj r' st)
                else fmupd subj r' st)"
    have one: "subject_store_ok st'"
      "subject_names st' s = (if s = subj then subject_names st s |-| {|name|} else subject_names st s)" for s
      using delete_one_ok [OF Cons.prems Some r'_def st'_def] by auto
    have step: "deleteResourceFromSubjects st (subj # ss) name = deleteResourceFromSubjects st' ss name"
      by (simp add: store_GetByKey_def Some Let_def r'_def st'_def)
    show ?thesis unfolding step using Cons.IH [OF one(1)] by (auto simp: one(2))
  qed
qed simp

lemma add_one_ok:
  assumes "subject_store_ok st"
    and "addSubjectsToNamespace st [subj] name = st'"
  shows "subject_store_ok st' \<and>
     (\<forall>s. subject_names st' s = (if s = subj then finsert name (subject_names st s) else subject_names st s))"
  using assms
  by (auto simp: subject_store_ok_def subject_names_def store_GetByKey_def store_Add_def Let_def
      keyed_by_def subjectRecordKeyFn_def split: option.splits if_splits)

lemma add_step:
  "addSubjectsToNamespace st (subj # ss) name =
     addSubjectsToNamespace (addSubjectsToNamespace st [subj] name) ss name"
  by (cases "fmlookup st subj") (simp_all add: store_GetByKey_def Let_def)

lemma add_names:
  "subject_store_ok st \<Longrightarrow>
     subject_store_ok (addSubjectsToNamespace st ss name) \<and>
     subject_names (addSubjectsToNamespace st ss name) s =
       (if s \<in> set ss then finsert name (subject_names st s) else subject_names st s)"
proof (induction ss arbitrary: st)
  case (Cons subj ss)
  note one = add_one_ok [OF Cons.prems refl, of subj name]
  show ?case
    unfolding add_step [of st subj ss name]
    using Cons.IH [OF one [THEN conjunct1]] one [THEN conjunct2]
    by (simp del: addSubjectsToNamespace.simps)
qed simp

section \<open>The contract of a subject index\<close>

text \<open>
  What the synchronisation needs of an index: \<open>names\<close> of a subject after \<open>del\<close> and \<open>add\<close>.
  Its client replaces the subjects of one name by others.
\<close>

locale subject_index =
  fixes ok :: "'st \<Rightarrow> bool"
    and names :: "'st \<Rightarrow> string \<Rightarrow> string fset"
    and empty :: 'st
    and del :: "'st \<Rightarrow> string list \<Rightarrow> string \<Rightarrow> 'st"
    and add :: "'st \<Rightarrow> string list \<Rightarrow> string \<Rightarrow> 'st"
  assumes ok_empty: "ok empty"
    and names_empty: "names empty s = {||}"
    and ok_del: "ok st \<Longrightarrow> ok (del st ss n)"
    and ok_add: "ok st \<Longrightarrow> ok (add st ss n)"
    and names_del: "ok st \<Longrightarrow> names (del st ss n) s = (if s \<in> set ss then names st s |-| {|n|} else names st s)"
    and names_add: "ok st \<Longrightarrow> names (add st ss n) s = (if s \<in> set ss then finsert n (names st s) else names st s)"
begin

lemma ok_replace: "ok st \<Longrightarrow> ok (add (del st gone n) new n)"
  by (simp add: ok_del ok_add)

text \<open>
  Dropping the subjects that lost the name and adding the ones that have it leaves exactly
  the latter, and touches no other name.
\<close>

lemma names_replace:
  assumes "ok st" "\<And>s. n |\<in>| names st s \<longleftrightarrow> s \<in> old" "set gone = old - set new"
  shows "m |\<in>| names (add (del st gone n) new n) s \<longleftrightarrow>
           (if m = n then s \<in> set new else m |\<in>| names st s)"
  using assms by (auto simp: names_del names_add ok_del)

lemma names_delete_all:
  assumes "ok st" "\<And>s. n |\<in>| names st s \<longleftrightarrow> s \<in> set old"
  shows "m |\<in>| names (del st old n) s \<longleftrightarrow> m \<noteq> n \<and> m |\<in>| names st s"
  using assms by (auto simp: names_del)

lemma add_then_del: "ok st \<Longrightarrow> n |\<notin>| names st s \<Longrightarrow> names (del (add st ss n) ss n) s = names st s"
  by (auto simp: names_del names_add ok_add)

end

interpretation subject_records: subject_index subject_store_ok subject_names fmempty
    deleteResourceFromSubjects addSubjectsToNamespace
  by unfold_locales (simp_all add: delete_names add_names)

section \<open>Review requests and records\<close>

definition lastKnown :: "review_store \<Rightarrow> string \<Rightarrow> review_record option result" where
  "lastKnown reviewRecordStore namespace =
     (case store_GetByKey reviewRecordStore namespace of
        Inl err \<Rightarrow> Inl err
      | Inr (Some obj) \<Rightarrow> Inr (Some obj)
      | Inr None \<Rightarrow> Inr None)"

text \<open>
  The two loops of \<open>skipReview\<close> over a version map return false on the first key that is
  new or has another version; the order of the range does not matter.
\<close>

definition versions_known :: "(string, string) fmap \<Rightarrow> (string, string) fmap \<Rightarrow> bool" where
  "versions_known requested known =
     list_all (\<lambda>(k, v). fmlookup known k = Some v) (sorted_list_of_fmap requested)"

definition skipReview :: "review_request option \<Rightarrow> review_record option \<Rightarrow> bool" where
  "skipReview request lastKnownValue =
     (case request of
        None \<Rightarrow> True
      | Some rq \<Rightarrow>
          (case lastKnownValue of
             None \<Rightarrow> False
           | Some known \<Rightarrow>
               if rq_name rq \<noteq> rq_name (rr_request known) then False
               else if length (rq_resourceVersion rq) > 0
                    \<and> rq_resourceVersion rq \<noteq> rq_resourceVersion (rr_request known) then False
               else if \<not> versions_known (rq_roleBindingUIDToResourceVersion rq)
                          (rq_roleBindingUIDToResourceVersion (rr_request known)) then False
               else if \<not> versions_known (rq_roleUIDToResourceVersion rq)
                          (rq_roleUIDToResourceVersion (rr_request known)) then False
               else True))"

text \<open>\<open>cacheReviewRecord\<close>: what was known, overlaid with what the request observed.\<close>

definition cacheReviewRecord ::
  "review_request \<Rightarrow> review_record option \<Rightarrow> review \<Rightarrow> review_store \<Rightarrow> review_store" where
  "cacheReviewRecord request lastKnownValue rv reviewRecordStore =
     (let base = \<lparr>rq_name = rq_name request, rq_resourceVersion = [],
                  rq_roleUIDToResourceVersion = fmempty,
                  rq_roleBindingUIDToResourceVersion = fmempty\<rparr>;
          kept = (case lastKnownValue of
                    None \<Rightarrow> base
                  | Some known \<Rightarrow> base\<lparr>
                      rq_resourceVersion := rq_resourceVersion (rr_request known),
                      rq_roleUIDToResourceVersion := rq_roleUIDToResourceVersion (rr_request known),
                      rq_roleBindingUIDToResourceVersion :=
                        rq_roleBindingUIDToResourceVersion (rr_request known)\<rparr>);
          versioned = (if length (rq_resourceVersion request) > 0
                       then kept\<lparr>rq_resourceVersion := rq_resourceVersion request\<rparr> else kept);
          full = versioned\<lparr>
            rq_roleUIDToResourceVersion :=
              rq_roleUIDToResourceVersion versioned ++\<^sub>f rq_roleUIDToResourceVersion request,
            rq_roleBindingUIDToResourceVersion :=
              rq_roleBindingUIDToResourceVersion versioned
                ++\<^sub>f rq_roleBindingUIDToResourceVersion request\<rparr>
      in store_Add reviewRecordKeyFn
           \<lparr>rr_request = full, rr_users = review_Users rv, rr_groups = review_Groups rv\<rparr>
           reviewRecordStore)"

text \<open>\<open>getResoureNamesFromClusterRole\<close>: the names a role lists, and whether it covers all.\<close>

fun role_rules_loop ::
  "policy_rule list \<Rightarrow> string \<Rightarrow> string \<Rightarrow> string fset \<times> bool \<Rightarrow> string fset \<times> bool" where
  "role_rules_loop [] grp resource acc = acc"
| "role_rules_loop (rule # rest) grp resource (names, all) =
     (if \<not> APIGroupMatches rule grp then role_rules_loop rest grp resource (names, all)
      else if \<not> ResourceMatches rule resource [] then role_rules_loop rest grp resource (names, all)
      else role_rules_loop rest grp resource
             (names |\<union>| fset_of_list (ResourceNames rule),
              if length (ResourceNames rule) = 0 then True else all))"

definition getResoureNamesFromClusterRole ::
  "cluster_role \<Rightarrow> string \<Rightarrow> string \<Rightarrow> string fset \<times> bool" where
  "getResoureNamesFromClusterRole clusterrole grp resource =
     role_rules_loop (role_Rules clusterrole) grp resource ({||}, False)"

lemma lastKnown_eq [simp]: "lastKnown st n = Inr (fmlookup st n)"
  by (cases "fmlookup st n") (simp_all add: lastKnown_def store_GetByKey_def)

lemma versions_known_iff:
  "versions_known m known \<longleftrightarrow> (\<forall>k v. fmlookup m k = Some v \<longrightarrow> fmlookup known k = Some v)"
  by (auto simp: versions_known_def list_all_iff set_map_of_sorted_fmap)

lemma skipReview_iff:
  "skipReview (Some rq) (Some known) \<longleftrightarrow>
     rq_name rq = rq_name (rr_request known)
     \<and> (rq_resourceVersion rq = [] \<or> rq_resourceVersion rq = rq_resourceVersion (rr_request known))
     \<and> rq_roleBindingUIDToResourceVersion rq \<subseteq>\<^sub>f rq_roleBindingUIDToResourceVersion (rr_request known)
     \<and> rq_roleUIDToResourceVersion rq \<subseteq>\<^sub>f rq_roleUIDToResourceVersion (rr_request known)"
  by (auto simp: skipReview_def versions_known_iff fmsubset_alt_def fmpred_iff)

lemma skipReview_None [simp]: "\<not> skipReview (Some rq) None"
  by (simp add: skipReview_def)

text \<open>The record a review leaves behind.\<close>

definition cached_record :: "review_request \<Rightarrow> review_record option \<Rightarrow> review \<Rightarrow> review_record" where
  "cached_record rq known rv =
     \<lparr>rr_request =
        \<lparr>rq_name = rq_name rq,
         rq_resourceVersion =
           (if rq_resourceVersion rq \<noteq> [] then rq_resourceVersion rq
            else case known of None \<Rightarrow> [] | Some k \<Rightarrow> rq_resourceVersion (rr_request k)),
         rq_roleUIDToResourceVersion =
           (case known of None \<Rightarrow> fmempty | Some k \<Rightarrow> rq_roleUIDToResourceVersion (rr_request k))
             ++\<^sub>f rq_roleUIDToResourceVersion rq,
         rq_roleBindingUIDToResourceVersion =
           (case known of None \<Rightarrow> fmempty | Some k \<Rightarrow> rq_roleBindingUIDToResourceVersion (rr_request k))
             ++\<^sub>f rq_roleBindingUIDToResourceVersion rq\<rparr>,
      rr_users = review_Users rv, rr_groups = review_Groups rv\<rparr>"

lemma cacheReviewRecord_eq:
  "cacheReviewRecord rq known rv st = fmupd (rq_name rq) (cached_record rq known rv) st"
  by (cases known)
    (simp_all add: cacheReviewRecord_def cached_record_def store_Add_def reviewRecordKeyFn_def)

lemma cached_record_fields [simp]:
  "reviewRecordKeyFn (cached_record rq known rv) = rq_name rq"
  "rr_users (cached_record rq known rv) = review_Users rv"
  "rr_groups (cached_record rq known rv) = review_Groups rv"
  by (simp_all add: cached_record_def reviewRecordKeyFn_def)

text \<open>A request that has just been cached is satisfied by its own record.\<close>

lemma skip_after_cache: "skipReview (Some rq) (Some (cached_record rq known rv))"
  by (auto simp: skipReview_iff cached_record_def fmsubset_alt_def fmpred_iff)

definition names_resource :: "policy_rule \<Rightarrow> string \<Rightarrow> string \<Rightarrow> bool" where
  "names_resource rule grp resource \<longleftrightarrow> APIGroupMatches rule grp \<and> ResourceMatches rule resource []"

lemma role_rules_loop_eq:
  "n |\<in>| fst (role_rules_loop rules grp res (names, all)) \<longleftrightarrow>
     n |\<in>| names \<or> (\<exists>rule \<in> set rules. names_resource rule grp res \<and> n \<in> set (ResourceNames rule))"
  "snd (role_rules_loop rules grp res (names, all)) \<longleftrightarrow>
     all \<or> (\<exists>rule \<in> set rules. names_resource rule grp res \<and> ResourceNames rule = [])"
  by (induction rules arbitrary: names all) (auto simp: names_resource_def)

lemma getResoureNames_iff:
  "n |\<in>| fst (getResoureNamesFromClusterRole cr grp res) \<longleftrightarrow>
     (\<exists>rule \<in> set (role_Rules cr). names_resource rule grp res \<and> n \<in> set (ResourceNames rule))"
  "snd (getResoureNamesFromClusterRole cr grp res) \<longleftrightarrow>
     (\<exists>rule \<in> set (role_Rules cr). names_resource rule grp res \<and> ResourceNames rule = [])"
  by (simp_all add: getResoureNamesFromClusterRole_def role_rules_loop_eq)

end
