(* ===== verification/Auth_Cache.thy ===== *)
theory Auth_Cache
  imports Auth_Store
begin

text \<open>
  The authorization cache of \<^verbatim>\<open>pkg/cache/common.go\<close>: its state, the list of watchers and its
  mutex, and the synchronisation pass. The state of a running system is the cache together
  with a heap \<open>'h\<close> of whatever the watchers keep. A watcher is known to the cache by its
  address only; the method \<open>GroupMembershipChanged\<close> of the interface \<open>CacheWatcher\<close> is the
  parameter \<open>gmc\<close> of the operations that notify.
\<close>

section \<open>State\<close>

type_synonym watcher_id = nat

record auth_cache =
  allKnownNames :: "string fset"
  lastState :: string
  reviewRecordStore :: review_store
  userSubjectRecordStore :: subject_store
  groupSubjectRecordStore :: subject_store
  ac_group :: string
  ac_resource :: string
  watchers :: "watcher_id list"
  watcherLocked :: bool

type_synonym 'h sys = "auth_cache \<times> 'h"

type_synonym 'h gmc = "watcher_id \<Rightarrow> string \<Rightarrow> string fset \<Rightarrow> string fset \<Rightarrow> 'h sys \<Rightarrow> (unit, 'h sys) run"

definition NewAutchCache :: "string \<Rightarrow> string \<Rightarrow> auth_cache" where
  "NewAutchCache grp resource =
     \<lparr>allKnownNames = {||}, lastState = [], reviewRecordStore = fmempty,
      userSubjectRecordStore = fmempty, groupSubjectRecordStore = fmempty,
      ac_group = grp, ac_resource = resource, watchers = [], watcherLocked = False\<rparr>"

text \<open>
  What a pass reads from outside: the requests for the current resources, the two listers,
  the reviewer, the resource versions of the three informers, and the orders in which the
  runtime ranges over the review records and over a set of names. One pass reads one state
  of the informers.
\<close>

record sync_env =
  syncRequests :: "review_request list result"
  clusterroleLister :: "cluster_role lister"
  clusterrolebindingLister :: "cluster_role_binding lister"
  reviewer :: "string \<Rightarrow> string \<Rightarrow> string \<Rightarrow> review result"
  resourceSyncVersion :: string
  roleSyncVersion :: string
  bindingSyncVersion :: string
  record_order :: "review_record list \<Rightarrow> review_record list"
  name_order :: "string list \<Rightarrow> string list"

definition orders_ok :: "sync_env \<Rightarrow> bool" where
  "orders_ok env \<longleftrightarrow> range_order (record_order env) \<and> range_order (name_order env)"

section \<open>Watchers and their mutex\<close>

text \<open>
  \<open>watcherLock\<close> is a \<open>sync.Mutex\<close>, which is not reentrant: locking it while it is held
  waits, for ever if the holder is the caller itself. \<open>with_lock\<close> is the pair
  \<open>Lock\<close>, deferred \<open>Unlock\<close>.
\<close>

definition with_lock :: "('h sys \<Rightarrow> (unit, 'h sys) run) \<Rightarrow> 'h sys \<Rightarrow> (unit, 'h sys) run" where
  "with_lock body s =
     (if watcherLocked (fst s) then Blocked s
      else bind_run (body ((fst s)\<lparr>watcherLocked := True\<rparr>, snd s))
             (\<lambda>_ (ac, h). Done () (ac\<lparr>watcherLocked := False\<rparr>, h)))"

definition AddWatcher :: "watcher_id \<Rightarrow> 'h sys \<Rightarrow> (unit, 'h sys) run" where
  "AddWatcher watcher =
     with_lock (\<lambda>(ac, h). Done () (ac\<lparr>watchers := watchers ac @ [watcher]\<rparr>, h))"

text \<open>Go's \<open>copy\<close> between overlapping parts of one array.\<close>

definition go_copy :: "'a list \<Rightarrow> 'a list \<Rightarrow> 'a list" where
  "go_copy dst src = (let n = min (length dst) (length src) in take n src @ drop n dst)"

function remove_watcher_loop :: "watcher_id list \<Rightarrow> nat \<Rightarrow> watcher_id \<Rightarrow> watcher_id list" where
  "remove_watcher_loop ws i watcher =
     (if i < length ws then
        if ws ! i = watcher then
          (let lastIndex = length ws - 1;
               shifted = (if i < lastIndex
                          then take i ws @ go_copy (drop i ws) (drop (i + 1) ws) else ws)
           in take lastIndex shifted)
        else remove_watcher_loop ws (Suc i) watcher
      else ws)"
  by pat_completeness auto
termination
  by (relation "measure (\<lambda>(ws, i, w). length ws - i)") auto

declare remove_watcher_loop.simps [simp del]

definition RemoveWatcher :: "watcher_id \<Rightarrow> 'h sys \<Rightarrow> (unit, 'h sys) run" where
  "RemoveWatcher watcher =
     with_lock (\<lambda>(ac, h). Done () (ac\<lparr>watchers := remove_watcher_loop (watchers ac) 0 watcher\<rparr>, h))"

definition notifyWatchers ::
  "'h gmc \<Rightarrow> string \<Rightarrow> string fset \<Rightarrow> string fset \<Rightarrow> 'h sys \<Rightarrow> (unit, 'h sys) run" where
  "notifyWatchers gmc name users groups =
     with_lock (\<lambda>s. for_each (\<lambda>watcher. gmc watcher name users groups) (watchers (fst s)) s)"

section \<open>Synchronisation\<close>

definition unionLastSyncResourceVersion :: "string list \<Rightarrow> string" where
  "unionLastSyncResourceVersion versions = join versions []"

definition SkipSynchronize :: "string \<Rightarrow> string list \<Rightarrow> bool \<times> string" where
  "SkipSynchronize prevState versions =
     (let currentState = join versions '',''
      in (currentState = prevState, currentState))"

definition syncRequest ::
  "sync_env \<Rightarrow> 'h gmc \<Rightarrow> review_request \<Rightarrow> 'h sys \<Rightarrow> (go_error option, 'h sys) run" where
  "syncRequest env gmc request s =
     (let (ac, h) = s in
      case lastKnown (reviewRecordStore ac) (rq_name request) of
        Inl err \<Rightarrow> Done (Some err) s
      | Inr lastKnownValue \<Rightarrow>
          if skipReview (Some request) lastKnownValue then Done None s
          else
            let name = rq_name request in
            case reviewer env (ac_group ac) (ac_resource ac) name of
              Inl err \<Rightarrow> Done (Some err) s
            | Inr rv \<Rightarrow>
                let usersToRemove = (case lastKnownValue of None \<Rightarrow> {||}
                      | Some known \<Rightarrow> fset_of_list (rr_users known) |-| fset_of_list (review_Users rv));
                    groupsToRemove = (case lastKnownValue of None \<Rightarrow> {||}
                      | Some known \<Rightarrow> fset_of_list (rr_groups known) |-| fset_of_list (review_Groups rv));
                    users1 = deleteResourceFromSubjects (userSubjectRecordStore ac)
                               (sorted_list_of_fset usersToRemove) name;
                    groups1 = deleteResourceFromSubjects (groupSubjectRecordStore ac)
                               (sorted_list_of_fset groupsToRemove) name;
                    users2 = addSubjectsToNamespace users1 (review_Users rv) name;
                    groups2 = addSubjectsToNamespace groups1 (review_Groups rv) name;
                    records = cacheReviewRecord request lastKnownValue rv (reviewRecordStore ac);
                    ac' = ac\<lparr>userSubjectRecordStore := users2, groupSubjectRecordStore := groups2,
                             reviewRecordStore := records\<rparr>
                in bind_run
                     (notifyWatchers gmc name (fset_of_list (review_Users rv))
                        (fset_of_list (review_Groups rv)) (ac', h))
                     (\<lambda>_ s'. Done None s'))"

fun requests_loop ::
  "sync_env \<Rightarrow> 'h gmc \<Rightarrow> review_request list \<Rightarrow> string fset \<Rightarrow> 'h sys \<Rightarrow> (string fset, 'h sys) run" where
  "requests_loop env gmc [] names s = Done names s"
| "requests_loop env gmc (request # rest) names s =
     bind_run (syncRequest env gmc request s)
       (\<lambda>err s'. requests_loop env gmc rest (finsert (rq_name request) names) s')"

text \<open>The errors of single requests are only logged. A failing list yields the nil set.\<close>

definition syncResources :: "sync_env \<Rightarrow> 'h gmc \<Rightarrow> 'h sys \<Rightarrow> (string fset, 'h sys) run" where
  "syncResources env gmc s =
     (case syncRequests env of
        Inl err \<Rightarrow> Done {||} s
      | Inr requests \<Rightarrow> requests_loop env gmc requests {||} s)"

fun names_loop ::
  "sync_env \<Rightarrow> 'h gmc \<Rightarrow> cluster_role_binding \<Rightarrow> cluster_role \<Rightarrow> string list \<Rightarrow> 'h sys
    \<Rightarrow> (unit, 'h sys) run" where
  "names_loop env gmc roleBinding clusterRole [] s = Done () s"
| "names_loop env gmc roleBinding clusterRole (name # rest) s =
     (let request = \<lparr>rq_name = name, rq_resourceVersion = [],
            rq_roleUIDToResourceVersion =
              fmupd (role_UID clusterRole) (role_ResourceVersion clusterRole) fmempty,
            rq_roleBindingUIDToResourceVersion =
              fmupd (binding_UID roleBinding) (binding_ResourceVersion roleBinding) fmempty\<rparr>
      in bind_run (syncRequest env gmc request s)
           (\<lambda>err s'. names_loop env gmc roleBinding clusterRole rest s'))"

fun role_bindings_loop ::
  "sync_env \<Rightarrow> 'h gmc \<Rightarrow> cluster_role_binding list \<Rightarrow> 'h sys \<Rightarrow> (unit, 'h sys) run" where
  "role_bindings_loop env gmc [] s = Done () s"
| "role_bindings_loop env gmc (roleBinding # rest) s =
     (case lister_Get (clusterroleLister env) (ref_Name (binding_RoleRef roleBinding)) of
        Inl err \<Rightarrow> role_bindings_loop env gmc rest s
      | Inr clusterRole \<Rightarrow>
          let (resources, all) =
                getResoureNamesFromClusterRole clusterRole (ac_group (fst s)) (ac_resource (fst s));
              resources = (if all then allKnownNames (fst s) else resources)
          in bind_run (names_loop env gmc roleBinding clusterRole (sorted_list_of_fset resources) s)
               (\<lambda>_ s'. role_bindings_loop env gmc rest s'))"

definition synchronizeClusterRoleBindings ::
  "sync_env \<Rightarrow> 'h gmc \<Rightarrow> 'h sys \<Rightarrow> (unit, 'h sys) run" where
  "synchronizeClusterRoleBindings env gmc s =
     (case lister_List (clusterrolebindingLister env) of
        Inl err \<Rightarrow> Done () s
      | Inr roleBindings \<Rightarrow> role_bindings_loop env gmc roleBindings s)"

fun purge_loop :: "string fset \<Rightarrow> review_record list \<Rightarrow> auth_cache \<Rightarrow> auth_cache" where
  "purge_loop newNames [] ac = ac"
| "purge_loop newNames (record # rest) ac =
     (let name = rq_name (rr_request record) in
      if name |\<notin>| newNames
      then purge_loop newNames rest
             (ac\<lparr>userSubjectRecordStore :=
                   deleteResourceFromSubjects (userSubjectRecordStore ac) (rr_users record) name,
                 groupSubjectRecordStore :=
                   deleteResourceFromSubjects (groupSubjectRecordStore ac) (rr_groups record) name,
                 reviewRecordStore := store_Delete reviewRecordKeyFn record (reviewRecordStore ac)\<rparr>)
      else purge_loop newNames rest ac)"

definition purgeDeletedResources ::
  "sync_env \<Rightarrow> 'h gmc \<Rightarrow> string fset \<Rightarrow> string fset \<Rightarrow> 'h sys \<Rightarrow> (unit, 'h sys) run" where
  "purgeDeletedResources env gmc oldNames newNames s =
     (let (ac, h) = s;
          reviewRecordItems = store_List (record_order env) (reviewRecordStore ac);
          ac' = purge_loop newNames reviewRecordItems ac
      in for_each (\<lambda>name. notifyWatchers gmc name {||} {||})
           (name_order env (sorted_list_of_fset (oldNames |-| newNames))) (ac', h))"

text \<open>The pass. The result of the skip test is logged; the early return is commented out.\<close>

definition synchronize :: "sync_env \<Rightarrow> 'h gmc \<Rightarrow> 'h sys \<Rightarrow> (unit, 'h sys) run" where
  "synchronize env gmc s =
     (let (skip, currentState) = SkipSynchronize (lastState (fst s))
            [resourceSyncVersion env,
             unionLastSyncResourceVersion [roleSyncVersion env, bindingSyncVersion env]]
      in bind_run (syncResources env gmc s) (\<lambda>newKnownNames s1.
         bind_run (synchronizeClusterRoleBindings env gmc s1) (\<lambda>_ s2.
         bind_run (purgeDeletedResources env gmc (allKnownNames (fst s2)) newKnownNames s2)
           (\<lambda>_ (ac, h). Done () (ac\<lparr>allKnownNames := newKnownNames, lastState := currentState\<rparr>, h)))))"

section \<open>Reading the cache\<close>

fun group_names_loop :: "subject_store \<Rightarrow> string list \<Rightarrow> string fset \<Rightarrow> string fset" where
  "group_names_loop st [] keys = keys"
| "group_names_loop st (grp # rest) keys =
     (case store_GetByKey st grp of
        Inr (Some r) \<Rightarrow> group_names_loop st rest (keys |\<union>| sr_names r)
      | _ \<Rightarrow> group_names_loop st rest keys)"

definition listNames :: "auth_cache \<Rightarrow> user_info \<Rightarrow> string fset" where
  "listNames ac userInfo =
     (let keys = (case store_GetByKey (userSubjectRecordStore ac) (user_Name userInfo) of
                    Inr (Some r) \<Rightarrow> sr_names r
                  | _ \<Rightarrow> {||})
      in group_names_loop (groupSubjectRecordStore ac) (user_Groups userInfo) keys)"

end
