(* ===== verification/Auth_Step_Facts.thy ===== *)
theory Auth_Step_Facts
  imports Auth_Cache
begin

text \<open>
  One request at a time: the pure effect \<open>request_step\<close> of a sync request on the caches, the
  invariant that ties the two subject indexes to the review records, and the view of the
  caches as a map from resource names to the users and groups with access.
\<close>

section \<open>The pure effect of one request\<close>

text \<open>The part of the state that is not about watchers.\<close>

definition caches :: "auth_cache \<Rightarrow> auth_cache" where
  "caches ac = ac\<lparr>watchers := [], watcherLocked := False\<rparr>"

lemma caches_simps [simp]:
  "allKnownNames (caches ac) = allKnownNames ac"
  "lastState (caches ac) = lastState ac"
  "reviewRecordStore (caches ac) = reviewRecordStore ac"
  "userSubjectRecordStore (caches ac) = userSubjectRecordStore ac"
  "groupSubjectRecordStore (caches ac) = groupSubjectRecordStore ac"
  "ac_group (caches ac) = ac_group ac"
  "ac_resource (caches ac) = ac_resource ac"
  "caches (ac\<lparr>watchers := ws\<rparr>) = caches ac"
  "caches (ac\<lparr>watcherLocked := b\<rparr>) = caches ac"
  "caches (caches ac) = caches ac"
  by (simp_all add: caches_def)

definition replace_subjects :: "subject_store \<Rightarrow> string list \<Rightarrow> string list \<Rightarrow> string \<Rightarrow> subject_store" where
  "replace_subjects st old new name =
     addSubjectsToNamespace
       (deleteResourceFromSubjects st (sorted_list_of_fset (fset_of_list old |-| fset_of_list new)) name)
       new name"

definition known_users :: "review_record option \<Rightarrow> string list" where
  "known_users known = (case known of None \<Rightarrow> [] | Some r \<Rightarrow> rr_users r)"

definition known_groups :: "review_record option \<Rightarrow> string list" where
  "known_groups known = (case known of None \<Rightarrow> [] | Some r \<Rightarrow> rr_groups r)"

definition reviewed :: "sync_env \<Rightarrow> auth_cache \<Rightarrow> string \<Rightarrow> review result" where
  "reviewed env ac name = reviewer env (ac_group ac) (ac_resource ac) name"

definition apply_review :: "review_request \<Rightarrow> review \<Rightarrow> auth_cache \<Rightarrow> auth_cache" where
  "apply_review rq rv ac =
     (let name = rq_name rq; known = fmlookup (reviewRecordStore ac) name
      in ac\<lparr>userSubjectRecordStore :=
              replace_subjects (userSubjectRecordStore ac) (known_users known) (review_Users rv) name,
            groupSubjectRecordStore :=
              replace_subjects (groupSubjectRecordStore ac) (known_groups known) (review_Groups rv) name,
            reviewRecordStore := fmupd name (cached_record rq known rv) (reviewRecordStore ac)\<rparr>)"

definition skipped :: "auth_cache \<Rightarrow> review_request \<Rightarrow> bool" where
  "skipped ac rq = skipReview (Some rq) (fmlookup (reviewRecordStore ac) (rq_name rq))"

definition request_step :: "sync_env \<Rightarrow> review_request \<Rightarrow> auth_cache \<Rightarrow> auth_cache" where
  "request_step env rq ac =
     (if skipped ac rq then ac
      else case reviewed env ac (rq_name rq) of
        Inl err \<Rightarrow> ac | Inr rv \<Rightarrow> apply_review rq rv ac)"

lemma syncRequest_eq:
  "syncRequest env gmc rq (ac, h) =
     (if skipped ac rq then Done None (ac, h)
      else case reviewed env ac (rq_name rq) of
        Inl err \<Rightarrow> Done (Some err) (ac, h)
      | Inr rv \<Rightarrow>
          bind_run (notifyWatchers gmc (rq_name rq) (fset_of_list (review_Users rv))
                     (fset_of_list (review_Groups rv)) (request_step env rq ac, h))
            (\<lambda>_ s'. Done None s'))"
  by (cases "fmlookup (reviewRecordStore ac) (rq_name rq)"; cases "reviewed env ac (rq_name rq)")
    (simp_all add: syncRequest_def skipped_def request_step_def apply_review_def reviewed_def
      replace_subjects_def known_users_def known_groups_def cacheReviewRecord_eq Let_def)

lemma apply_review_fields [simp]:
  "allKnownNames (apply_review rq rv ac) = allKnownNames ac"
  "lastState (apply_review rq rv ac) = lastState ac"
  "ac_group (apply_review rq rv ac) = ac_group ac"
  "ac_resource (apply_review rq rv ac) = ac_resource ac"
  "watchers (apply_review rq rv ac) = watchers ac"
  "watcherLocked (apply_review rq rv ac) = watcherLocked ac"
  by (simp_all add: apply_review_def Let_def)

lemma request_step_fields [simp]:
  "allKnownNames (request_step env rq ac) = allKnownNames ac"
  "lastState (request_step env rq ac) = lastState ac"
  "ac_group (request_step env rq ac) = ac_group ac"
  "ac_resource (request_step env rq ac) = ac_resource ac"
  "watchers (request_step env rq ac) = watchers ac"
  "watcherLocked (request_step env rq ac) = watcherLocked ac"
  by (simp_all add: request_step_def split: sum.splits)

lemma skipped_caches [simp]: "skipped (caches ac) rq = skipped ac rq"
  by (simp add: skipped_def)

lemma reviewed_caches [simp]: "reviewed env (caches ac) n = reviewed env ac n"
  by (simp add: reviewed_def)

lemma request_step_caches: "caches (request_step env rq ac) = request_step env rq (caches ac)"
  by (simp add: request_step_def split: sum.splits) (simp add: apply_review_def caches_def Let_def)

section \<open>The index invariant\<close>

text \<open>A subject index lists exactly the names whose record mentions the subject.\<close>

definition index_agrees :: "subject_store \<Rightarrow> (review_record \<Rightarrow> string list) \<Rightarrow> review_store \<Rightarrow> bool" where
  "index_agrees st members reviews \<longleftrightarrow>
     (\<forall>s n. n |\<in>| subject_names st s \<longleftrightarrow>
        (\<exists>r. fmlookup reviews n = Some r \<and> s \<in> set (members r)))"

definition cache_inv :: "auth_cache \<Rightarrow> bool" where
  "cache_inv ac \<longleftrightarrow>
     subject_store_ok (userSubjectRecordStore ac)
     \<and> subject_store_ok (groupSubjectRecordStore ac)
     \<and> keyed_by reviewRecordKeyFn (reviewRecordStore ac)
     \<and> index_agrees (userSubjectRecordStore ac) rr_users (reviewRecordStore ac)
     \<and> index_agrees (groupSubjectRecordStore ac) rr_groups (reviewRecordStore ac)"

lemma cache_inv_caches [simp]: "cache_inv (caches ac) = cache_inv ac"
  by (simp add: cache_inv_def)

lemma cache_inv_fields [simp]:
  "cache_inv (ac\<lparr>watchers := ws\<rparr>) = cache_inv ac"
  "cache_inv (ac\<lparr>watcherLocked := b\<rparr>) = cache_inv ac"
  "cache_inv (ac\<lparr>allKnownNames := ns, lastState := st\<rparr>) = cache_inv ac"
  by (simp_all add: cache_inv_def)

lemma cache_inv_new [simp]: "cache_inv (NewAutchCache g r)"
  by (simp add: cache_inv_def NewAutchCache_def index_agrees_def)

lemma replace_subjects_ok: "subject_store_ok st \<Longrightarrow> subject_store_ok (replace_subjects st old new n)"
  by (simp add: replace_subjects_def subject_records.ok_replace)

lemma index_agrees_replace:
  assumes "subject_store_ok st" "index_agrees st members reviews"
    and "set old = (case fmlookup reviews n of None \<Rightarrow> {} | Some r \<Rightarrow> set (members r))"
    and "members r' = new"
  shows "index_agrees (replace_subjects st old new n) members (fmupd n r' reviews)"
proof -
  have "n |\<in>| subject_names st s \<longleftrightarrow> s \<in> set old" for s
    using assms(2,3) by (auto simp: index_agrees_def split: option.splits)
  then have "m |\<in>| subject_names (replace_subjects st old new n) s \<longleftrightarrow>
      (if m = n then s \<in> set new else m |\<in>| subject_names st s)" for m s
    unfolding replace_subjects_def
    by (intro subject_records.names_replace [OF assms(1)]) (auto simp: fset_of_list.rep_eq)
  with assms(2,4) show ?thesis by (auto simp: index_agrees_def)
qed

lemma apply_review_inv:
  assumes "cache_inv ac"
  shows "cache_inv (apply_review rq rv ac)"
proof -
  let ?known = "fmlookup (reviewRecordStore ac) (rq_name rq)"
  have "set (known_users ?known) = (case ?known of None \<Rightarrow> {} | Some r \<Rightarrow> set (rr_users r))"
    "set (known_groups ?known) = (case ?known of None \<Rightarrow> {} | Some r \<Rightarrow> set (rr_groups r))"
    by (auto simp: known_users_def known_groups_def split: option.splits)
  with assms show ?thesis
    by (simp add: cache_inv_def apply_review_def Let_def replace_subjects_ok index_agrees_replace
        keyed_by_upd)
qed

lemma request_step_inv: "cache_inv ac \<Longrightarrow> cache_inv (request_step env rq ac)"
  by (simp add: request_step_def apply_review_inv split: sum.splits)

lemma fold_request_step_inv: "cache_inv ac \<Longrightarrow> cache_inv (fold (request_step env) rqs ac)"
  by (induction rqs arbitrary: ac) (auto simp: request_step_inv)

lemma fold_request_step_fields [simp]:
  "allKnownNames (fold (request_step env) rqs ac) = allKnownNames ac"
  "lastState (fold (request_step env) rqs ac) = lastState ac"
  "ac_group (fold (request_step env) rqs ac) = ac_group ac"
  "ac_resource (fold (request_step env) rqs ac) = ac_resource ac"
  "watchers (fold (request_step env) rqs ac) = watchers ac"
  "watcherLocked (fold (request_step env) rqs ac) = watcherLocked ac"
  by (induction rqs arbitrary: ac) auto

section \<open>The access view\<close>

type_synonym access = "string set \<times> string set"

definition record_access :: "review_record \<Rightarrow> access" where
  "record_access r = (set (rr_users r), set (rr_groups r))"

definition review_access :: "review \<Rightarrow> access" where
  "review_access rv = (set (review_Users rv), set (review_Groups rv))"

definition access_view :: "auth_cache \<Rightarrow> string \<Rightarrow> access option" where
  "access_view ac n = map_option record_access (fmlookup (reviewRecordStore ac) n)"

lemma access_view_caches [simp]: "access_view (caches ac) = access_view ac"
  by (simp add: access_view_def fun_eq_iff)

lemma request_step_lookup_other:
  "n \<noteq> rq_name rq \<Longrightarrow>
     fmlookup (reviewRecordStore (request_step env rq ac)) n = fmlookup (reviewRecordStore ac) n"
  by (auto simp: request_step_def apply_review_def Let_def split: sum.splits)

lemma request_step_view:
  assumes "reviewed env ac (rq_name rq) = Inr rv"
  shows "access_view (request_step env rq ac) n =
     (if n = rq_name rq \<and> \<not> skipped ac rq then Some (review_access rv) else access_view ac n)"
  using assms
  by (auto simp: request_step_def apply_review_def access_view_def record_access_def
      review_access_def Let_def)

text \<open>
  A reviewer that always answers: after a list of requests, a name has the access of a new
  review if one of its requests was not covered by the record the list started from, and
  its old access otherwise.
\<close>

definition always_answers :: "sync_env \<Rightarrow> bool" where
  "always_answers env \<longleftrightarrow> (\<forall>g r n. \<exists>rv. reviewer env g r n = Inr rv)"

definition fresh_access :: "sync_env \<Rightarrow> auth_cache \<Rightarrow> string \<Rightarrow> access" where
  "fresh_access env ac n =
     (case reviewed env ac n of Inl err \<Rightarrow> ({}, {}) | Inr rv \<Rightarrow> review_access rv)"

definition needs_review :: "auth_cache \<Rightarrow> review_request list \<Rightarrow> string \<Rightarrow> bool" where
  "needs_review ac rqs n \<longleftrightarrow> (\<exists>rq \<in> set rqs. rq_name rq = n \<and> \<not> skipped ac rq)"

lemma fresh_access_request_step [simp]:
  "fresh_access env (request_step env' rq ac) n = fresh_access env ac n"
  by (simp add: fresh_access_def reviewed_def)

lemma request_step_view':
  assumes "always_answers env"
  shows "access_view (request_step env rq ac) n =
     (if n = rq_name rq \<and> \<not> skipped ac rq then Some (fresh_access env ac n) else access_view ac n)"
proof -
  obtain rv where "reviewed env ac (rq_name rq) = Inr rv"
    using assms unfolding always_answers_def reviewed_def by blast
  then show ?thesis
    using request_step_view [of env ac rq rv n] by (auto simp: fresh_access_def)
qed

lemma skipped_cong:
  "fmlookup (reviewRecordStore ac) (rq_name rq) = fmlookup (reviewRecordStore ac') (rq_name rq)
     \<Longrightarrow> skipped ac rq = skipped ac' rq"
  by (simp add: skipped_def)

lemma fresh_stays:
  "always_answers env \<Longrightarrow> access_view ac n = Some (fresh_access env ac n)
     \<Longrightarrow> access_view (fold (request_step env) rqs ac) n = Some (fresh_access env ac n)"
  by (induction rqs arbitrary: ac) (auto simp: request_step_view')

lemma fold_request_step_view:
  assumes "always_answers env"
  shows "access_view (fold (request_step env) rqs ac) n =
     (if needs_review ac rqs n then Some (fresh_access env ac n) else access_view ac n)"
proof (induction rqs arbitrary: ac)
  case Nil
  then show ?case by (simp add: needs_review_def)
next
  case (Cons rq rqs)
  let ?ac = "request_step env rq ac"
  show ?case
  proof (cases "n = rq_name rq \<and> \<not> skipped ac rq")
    case True
    then have "access_view ?ac n = Some (fresh_access env ?ac n)"
      by (simp add: request_step_view' [OF assms])
    then have "access_view (fold (request_step env) rqs ?ac) n = Some (fresh_access env ac n)"
      using fresh_stays [OF assms, of ?ac n rqs] by simp
    with True show ?thesis by (auto simp: needs_review_def)
  next
    case False
    then have same: "fmlookup (reviewRecordStore ?ac) n = fmlookup (reviewRecordStore ac) n"
      using request_step_lookup_other [of n rq env ac]
      by (cases "n = rq_name rq") (simp_all add: request_step_def)
    then have "skipped ?ac rq' = skipped ac rq'" if "rq_name rq' = n" for rq'
      using that by (intro skipped_cong) simp
    with False have "needs_review ?ac rqs n = needs_review ac (rq # rqs) n"
      by (auto simp: needs_review_def)
    moreover have "access_view ?ac n = access_view ac n"
      by (simp add: access_view_def same)
    ultimately show ?thesis by (simp add: Cons.IH)
  qed
qed

section \<open>Reading through the view\<close>

lemma group_names_loop_eq:
  "n |\<in>| group_names_loop st gs keys \<longleftrightarrow> n |\<in>| keys \<or> (\<exists>g \<in> set gs. n |\<in>| subject_names st g)"
proof (induction gs arbitrary: keys)
  case (Cons g gs)
  then show ?case
    by (cases "fmlookup st g") (auto simp: store_GetByKey_def subject_names_def)
qed simp

definition view_lists :: "(string \<Rightarrow> access option) \<Rightarrow> user_info \<Rightarrow> string \<Rightarrow> bool" where
  "view_lists view u n \<longleftrightarrow>
     (\<exists>us gs. view n = Some (us, gs) \<and> (user_Name u \<in> us \<or> set (user_Groups u) \<inter> gs \<noteq> {}))"

lemma listNames_subject_names:
  "n |\<in>| listNames ac u \<longleftrightarrow>
     n |\<in>| subject_names (userSubjectRecordStore ac) (user_Name u)
     \<or> (\<exists>g \<in> set (user_Groups u). n |\<in>| subject_names (groupSubjectRecordStore ac) g)"
  by (cases "fmlookup (userSubjectRecordStore ac) (user_Name u)")
    (auto simp: listNames_def store_GetByKey_def group_names_loop_eq subject_names_def)

lemma listNames_view:
  assumes "cache_inv ac"
  shows "n |\<in>| listNames ac u \<longleftrightarrow> view_lists (access_view ac) u n"
  using assms
  by (auto simp: listNames_subject_names cache_inv_def index_agrees_def view_lists_def
      access_view_def record_access_def)

end
