(* ===== verification/Auth_Sync_Facts.thy ===== *)
theory Auth_Sync_Facts
  imports Auth_Step_Facts
begin

text \<open>
  A whole pass. The pure function \<open>sync_step\<close> is what \<open>synchronize\<close> does to the caches when
  it returns, whatever the watchers do (as long as they keep their hands off the caches,
  the contract of the locale \<open>cache_watcher\<close>); \<open>sync_view\<close> is the specification of the
  pass as a function on the access view.
\<close>

section \<open>The pure pass\<close>

definition binding_request :: "cluster_role_binding \<Rightarrow> cluster_role \<Rightarrow> string \<Rightarrow> review_request" where
  "binding_request b cr name =
     \<lparr>rq_name = name, rq_resourceVersion = [],
      rq_roleUIDToResourceVersion = fmupd (role_UID cr) (role_ResourceVersion cr) fmempty,
      rq_roleBindingUIDToResourceVersion = fmupd (binding_UID b) (binding_ResourceVersion b) fmempty\<rparr>"

definition role_resources :: "auth_cache \<Rightarrow> cluster_role \<Rightarrow> string fset" where
  "role_resources ac cr =
     (let (resources, all) = getResoureNamesFromClusterRole cr (ac_group ac) (ac_resource ac)
      in if all then allKnownNames ac else resources)"

definition requests_of_binding :: "sync_env \<Rightarrow> auth_cache \<Rightarrow> cluster_role_binding \<Rightarrow> review_request list" where
  "requests_of_binding env ac b =
     (case lister_Get (clusterroleLister env) (ref_Name (binding_RoleRef b)) of
        Inl err \<Rightarrow> []
      | Inr cr \<Rightarrow> map (binding_request b cr) (sorted_list_of_fset (role_resources ac cr)))"

definition binding_requests :: "sync_env \<Rightarrow> auth_cache \<Rightarrow> review_request list" where
  "binding_requests env ac =
     (case lister_List (clusterrolebindingLister env) of
        Inl err \<Rightarrow> [] | Inr bs \<Rightarrow> concat (map (requests_of_binding env ac) bs))"

definition resource_requests :: "sync_env \<Rightarrow> review_request list" where
  "resource_requests env = (case syncRequests env of Inl err \<Rightarrow> [] | Inr rqs \<Rightarrow> rqs)"

definition all_requests :: "sync_env \<Rightarrow> auth_cache \<Rightarrow> review_request list" where
  "all_requests env ac = resource_requests env @ binding_requests env ac"

definition known_names :: "sync_env \<Rightarrow> string fset" where
  "known_names env = fset_of_list (map rq_name (resource_requests env))"

definition sync_state :: "sync_env \<Rightarrow> string" where
  "sync_state env =
     snd (SkipSynchronize [] [resourceSyncVersion env,
            unionLastSyncResourceVersion [roleSyncVersion env, bindingSyncVersion env]])"

definition purge :: "sync_env \<Rightarrow> auth_cache \<Rightarrow> auth_cache" where
  "purge env ac =
     purge_loop (known_names env) (store_List (record_order env) (reviewRecordStore ac)) ac"

definition sync_step :: "sync_env \<Rightarrow> auth_cache \<Rightarrow> auth_cache" where
  "sync_step env ac =
     (purge env (fold (request_step env) (all_requests env ac) ac))
       \<lparr>allKnownNames := known_names env, lastState := sync_state env\<rparr>"

lemma requests_of_binding_cong:
  assumes "ac_group ac = ac_group ac'" "ac_resource ac = ac_resource ac'"
    "allKnownNames ac = allKnownNames ac'"
  shows "requests_of_binding env ac = requests_of_binding env ac'"
proof -
  have "role_resources ac = role_resources ac'"
    using assms by (simp add: role_resources_def fun_eq_iff split: prod.split)
  then show ?thesis by (intro ext) (simp only: requests_of_binding_def)
qed

lemma binding_requests_cong:
  assumes "ac_group ac = ac_group ac'" "ac_resource ac = ac_resource ac'"
    "allKnownNames ac = allKnownNames ac'"
  shows "binding_requests env ac = binding_requests env ac'"
  by (simp only: binding_requests_def requests_of_binding_cong [OF assms])

section \<open>The purge\<close>

lemma purge_loop_fields [simp]:
  "allKnownNames (purge_loop new rs ac) = allKnownNames ac"
  "lastState (purge_loop new rs ac) = lastState ac"
  "ac_group (purge_loop new rs ac) = ac_group ac"
  "ac_resource (purge_loop new rs ac) = ac_resource ac"
  "watchers (purge_loop new rs ac) = watchers ac"
  "watcherLocked (purge_loop new rs ac) = watcherLocked ac"
  by (induction new rs ac rule: purge_loop.induct) (auto simp: Let_def)

lemma caches_stores:
  "caches (ac\<lparr>userSubjectRecordStore := us, groupSubjectRecordStore := gs, reviewRecordStore := rs\<rparr>) =
     (caches ac)\<lparr>userSubjectRecordStore := us, groupSubjectRecordStore := gs, reviewRecordStore := rs\<rparr>"
  by (simp add: caches_def)

lemma purge_loop_caches: "caches (purge_loop new rs ac) = purge_loop new rs (caches ac)"
proof (induction new rs ac rule: purge_loop.induct)
  case (2 new r rs ac)
  then show ?case by (cases "rq_name (rr_request r) |\<in>| new") (simp_all add: Let_def caches_stores)
qed simp

lemma index_agrees_purge:
  assumes "subject_store_ok st" "index_agrees st members reviews" "fmlookup reviews n = Some r"
  shows "index_agrees (deleteResourceFromSubjects st (members r) n) members (fmdrop n reviews)"
proof -
  have "n |\<in>| subject_names st s \<longleftrightarrow> s \<in> set (members r)" for s
    using assms(2,3) by (auto simp: index_agrees_def)
  from subject_records.names_delete_all [OF assms(1) this] assms(2) show ?thesis
    by (auto simp: index_agrees_def)
qed

text \<open>Removing one record whose key is its own name keeps the invariant.\<close>

lemma purge_one_inv:
  assumes "cache_inv ac" "fmlookup (reviewRecordStore ac) n = Some r" "rq_name (rr_request r) = n"
  shows "cache_inv (ac\<lparr>userSubjectRecordStore := deleteResourceFromSubjects (userSubjectRecordStore ac) (rr_users r) n,
      groupSubjectRecordStore := deleteResourceFromSubjects (groupSubjectRecordStore ac) (rr_groups r) n,
      reviewRecordStore := store_Delete reviewRecordKeyFn r (reviewRecordStore ac)\<rparr>)"
  using assms
  by (simp add: cache_inv_def index_agrees_purge subject_records.ok_del keyed_by_drop
      store_Delete_def reviewRecordKeyFn_def)

lemma purge_loop_inv:
  assumes "cache_inv ac" "distinct (map reviewRecordKeyFn rs)"
    and "\<forall>r \<in> set rs. fmlookup (reviewRecordStore ac) (reviewRecordKeyFn r) = Some r"
  shows "cache_inv (purge_loop new rs ac)
    \<and> (\<forall>n. fmlookup (reviewRecordStore (purge_loop new rs ac)) n =
         (if n |\<notin>| new \<and> n \<in> reviewRecordKeyFn ` set rs then None
          else fmlookup (reviewRecordStore ac) n))"
  using assms
proof (induction new rs ac rule: purge_loop.induct)
  case (2 new r rs ac)
  let ?n = "rq_name (rr_request r)"
  show ?case
  proof (cases "?n |\<in>| new")
    case True
    with 2 show ?thesis by (auto simp: Let_def reviewRecordKeyFn_def)
  next
    case False
    let ?ac = "ac\<lparr>userSubjectRecordStore := deleteResourceFromSubjects (userSubjectRecordStore ac) (rr_users r) ?n,
      groupSubjectRecordStore := deleteResourceFromSubjects (groupSubjectRecordStore ac) (rr_groups r) ?n,
      reviewRecordStore := store_Delete reviewRecordKeyFn r (reviewRecordStore ac)\<rparr>"
    have inv: "cache_inv ?ac"
      using "2.prems" by (intro purge_one_inv) (auto simp: reviewRecordKeyFn_def)
    have rest: "\<forall>r' \<in> set rs. fmlookup (reviewRecordStore ?ac) (reviewRecordKeyFn r') = Some r'"
    proof
      fix r' assume r': "r' \<in> set rs"
      with "2.prems"(2) have "reviewRecordKeyFn r' \<noteq> reviewRecordKeyFn r"
        by (metis distinct.simps(2) image_eqI list.set_map list.simps(9))
      with r' "2.prems"(3)
      show "fmlookup (reviewRecordStore ?ac) (reviewRecordKeyFn r') = Some r'"
        by (simp add: store_Delete_def)
    qed
    have "distinct (map reviewRecordKeyFn rs)"
      using "2.prems"(2) by simp
    note IH = "2.IH"(1) [OF refl False inv this rest]
    have step: "purge_loop new (r # rs) ac = purge_loop new rs ?ac"
      using False by (simp add: Let_def)
    have "fmlookup (reviewRecordStore ?ac) n =
        (if n = ?n then None else fmlookup (reviewRecordStore ac) n)" for n
      by (simp add: store_Delete_def reviewRecordKeyFn_def)
    then have "fmlookup (reviewRecordStore (purge_loop new (r # rs) ac)) n =
        (if n |\<notin>| new \<and> n \<in> reviewRecordKeyFn ` set (r # rs) then None
         else fmlookup (reviewRecordStore ac) n)" for n
      unfolding step using IH [THEN conjunct2, THEN spec, of n] False
      by (cases "n = ?n") (simp_all add: reviewRecordKeyFn_def)
    with IH show ?thesis unfolding step by blast
  qed
qed simp

lemma store_List_keys:
  assumes "range_order ord" "keyed_by reviewRecordKeyFn st"
  shows "distinct (map reviewRecordKeyFn (store_List ord st))"
    and "\<forall>r \<in> set (store_List ord st). fmlookup st (reviewRecordKeyFn r) = Some r"
    and "reviewRecordKeyFn ` set (store_List ord st) = fmdom' st"
proof -
  have keys: "map reviewRecordKeyFn (map snd (sorted_list_of_fmap st)) = sorted_list_of_fset (fmdom st)"
    using assms(2)
    by (auto simp: sorted_list_of_fmap_def keyed_by_def fmlookup_dom_iff sorted_list_of_fset.rep_eq
        intro!: map_idI)
  then have "distinct (map reviewRecordKeyFn (map snd (sorted_list_of_fmap st)))"
    by (simp add: sorted_list_of_fset.rep_eq)
  moreover have "mset (map reviewRecordKeyFn (store_List ord st)) =
      mset (map reviewRecordKeyFn (map snd (sorted_list_of_fmap st)))"
    using assms(1) by (simp add: store_List_def range_order_def multiset.map_comp)
  ultimately show "distinct (map reviewRecordKeyFn (store_List ord st))"
    by (metis mset_eq_imp_distinct_iff)
  show "\<forall>r \<in> set (store_List ord st). fmlookup st (reviewRecordKeyFn r) = Some r"
    using assms by (auto simp: keyed_by_def)
  show "reviewRecordKeyFn ` set (store_List ord st) = fmdom' st"
    using assms by (force simp: keyed_by_def fmlookup_dom'_iff)
qed

lemma purge_facts:
  assumes "range_order (record_order env)" "cache_inv ac"
  shows "cache_inv (purge env ac)"
    and "fmlookup (reviewRecordStore (purge env ac)) n =
      (if n |\<in>| known_names env then fmlookup (reviewRecordStore ac) n else None)"
proof -
  note keys = store_List_keys [OF assms(1), of "reviewRecordStore ac"]
  have key: "keyed_by reviewRecordKeyFn (reviewRecordStore ac)"
    using assms(2) by (simp add: cache_inv_def)
  note loop = purge_loop_inv [OF assms(2) keys(1) [OF key] keys(2) [OF key], of "known_names env"]
  show "cache_inv (purge env ac)"
    using loop by (simp add: purge_def)
  show "fmlookup (reviewRecordStore (purge env ac)) n =
      (if n |\<in>| known_names env then fmlookup (reviewRecordStore ac) n else None)"
    using loop keys(3) [OF key] by (auto simp: purge_def fmdom'_notD)
qed

section \<open>The specification of a pass\<close>

definition sync_view :: "sync_env \<Rightarrow> auth_cache \<Rightarrow> string \<Rightarrow> access option" where
  "sync_view env ac n =
     (if n |\<notin>| known_names env then None
      else if needs_review ac (all_requests env ac) n then Some (fresh_access env ac n)
      else access_view ac n)"

lemma sync_step_inv:
  "range_order (record_order env) \<Longrightarrow> cache_inv ac \<Longrightarrow> cache_inv (sync_step env ac)"
  by (simp add: sync_step_def purge_facts fold_request_step_inv)

lemma sync_step_view:
  assumes "range_order (record_order env)" "cache_inv ac" "always_answers env"
  shows "access_view (sync_step env ac) n = sync_view env ac n"
proof -
  let ?ac = "fold (request_step env) (all_requests env ac) ac"
  have "cache_inv ?ac" using assms(2) by (rule fold_request_step_inv)
  then have "access_view (sync_step env ac) n =
      (if n |\<in>| known_names env then access_view ?ac n else None)"
    using purge_facts(2) [OF assms(1)] by (simp add: sync_step_def access_view_def)
  then show ?thesis
    by (simp add: sync_view_def fold_request_step_view [OF assms(3)])
qed

end
