(* ===== verification/Watcher_Contract.thy ===== *)
theory Watcher_Contract
  imports Auth_Sync_Facts
begin

text \<open>
  The interface \<open>CacheWatcher\<close> as the synchronisation uses it, and what follows for the
  operations that notify. The basic contract says that a watcher leaves the caches alone;
  it is all that the correctness of a pass needs. The extended contract bounds what a
  watcher can absorb before it blocks its caller, and gives a pass that returns.
\<close>

section \<open>The in-place removal from the watcher list\<close>

lemma remove_watcher_shift:
  assumes "i < length ws"
  shows "take (length ws - 1)
      (if i < length ws - 1 then take i ws @ go_copy (drop i ws) (drop (i + 1) ws) else ws)
    = take i ws @ drop (Suc i) ws"
proof (cases "i < length ws - 1")
  case True
  then have "take (length ws - 1) (take i ws @ go_copy (drop i ws) (drop (i + 1) ws)) =
      take i ws @ drop (Suc i) ws"
    using assms by (simp add: go_copy_def Let_def min_def)
  with True show ?thesis by simp
next
  case False
  with assms have "i = length ws - 1" by simp
  with assms show ?thesis by simp
qed

lemma remove_watcher_loop_eq:
  "w \<notin> set (take i ws) \<Longrightarrow> remove_watcher_loop ws i w = remove1 w ws"
proof (induction ws i w rule: remove_watcher_loop.induct)
  case (1 ws i w)
  show ?case
  proof (cases "i < length ws")
    case True
    then have ws: "ws = take i ws @ ws ! i # drop (Suc i) ws"
      by (rule id_take_nth_drop)
    show ?thesis
    proof (cases "ws ! i = w")
      case hit: True
      have "remove_watcher_loop ws i w = take i ws @ drop (Suc i) ws"
        using True hit remove_watcher_shift [OF True]
        by (subst remove_watcher_loop.simps) (simp add: Let_def)
      also have "\<dots> = remove1 w ws"
        using "1.prems" hit by (subst (3) ws) (simp add: remove1_append)
      finally show ?thesis .
    next
      case False
      with True "1.prems" have "w \<notin> set (take (Suc i) ws)" by (simp add: take_Suc_conv_app_nth)
      with "1.IH" True False show ?thesis by (subst remove_watcher_loop.simps) simp
    qed
  next
    case False
    with "1.prems" have "remove1 w ws = ws" by (simp add: remove1_idem)
    with False show ?thesis by (subst remove_watcher_loop.simps) simp
  qed
qed

lemma RemoveWatcher_eq:
  "RemoveWatcher w (ac, h) =
     (if watcherLocked ac then Blocked (ac, h)
      else Done () (ac\<lparr>watchers := remove1 w (watchers ac)\<rparr>, h))"
  by (simp add: RemoveWatcher_def with_lock_def remove_watcher_loop_eq)

lemma AddWatcher_eq:
  "AddWatcher w (ac, h) =
     (if watcherLocked ac then Blocked (ac, h)
      else Done () (ac\<lparr>watchers := watchers ac @ [w]\<rparr>, h))"
  by (simp add: AddWatcher_def with_lock_def)

section \<open>The basic contract\<close>

definition same_caches :: "auth_cache \<Rightarrow> 'h sys \<Rightarrow> bool" where
  "same_caches ac s \<longleftrightarrow> caches (fst s) = caches ac"

lemma same_caches_pair [simp]: "same_caches ac (ac', h) \<longleftrightarrow> caches ac' = caches ac"
  by (simp add: same_caches_def)

lemma role_bindings_loop_Cons:
  "role_bindings_loop env gmc (b # bs) s =
     (case lister_Get (clusterroleLister env) (ref_Name (binding_RoleRef b)) of
        Inl err \<Rightarrow> role_bindings_loop env gmc bs s
      | Inr cr \<Rightarrow>
          bind_run (names_loop env gmc b cr (sorted_list_of_fset (role_resources (fst s) cr)) s)
            (\<lambda>_. role_bindings_loop env gmc bs))"
  by (simp add: role_resources_def split: sum.split prod.split)

locale cache_watcher =
  fixes gmc :: "'h gmc"
  assumes frame: "run_all (same_caches (fst s)) (gmc w n us gs s)"
begin

lemma notify_frame: "run_all (same_caches ac) (notifyWatchers gmc n us gs (ac, h))"
proof (cases "watcherLocked ac")
  case True
  then show ?thesis by (simp add: notifyWatchers_def with_lock_def)
next
  case False
  let ?s = "(ac\<lparr>watcherLocked := True\<rparr>, h)"
  have "run_all (same_caches ac) (for_each (\<lambda>w. gmc w n us gs) (watchers ac) ?s)"
  proof (rule run_all_for_each)
    show "same_caches ac ?s" by simp
    fix w s
    assume "same_caches ac (s :: 'h sys)"
    then show "run_all (same_caches ac) (gmc w n us gs s)"
      by (intro run_all_mono [OF frame]) (simp add: same_caches_def)
  qed
  then show ?thesis
    using False
    by (cases "for_each (\<lambda>w. gmc w n us gs) (watchers ac) ?s")
      (auto simp: notifyWatchers_def with_lock_def)
qed

lemma syncRequest_frame:
  "run_all (same_caches (request_step env rq ac)) (syncRequest env gmc rq (ac, h))"
  by (simp add: syncRequest_eq request_step_def notify_frame split: sum.splits)

lemma syncRequest_Done:
  "syncRequest env gmc rq s = Done e s' \<Longrightarrow> caches (fst s') = request_step env rq (caches (fst s))"
  using run_all_Done [OF syncRequest_frame [of env rq "fst s" "snd s"], of e s']
  by (simp add: same_caches_def request_step_caches)

lemma requests_loop_Done:
  "requests_loop env gmc rqs names s = Done names' s' \<Longrightarrow>
     caches (fst s') = fold (request_step env) rqs (caches (fst s))
     \<and> names' = names |\<union>| fset_of_list (map rq_name rqs)"
  by (induction rqs arbitrary: names s) (auto simp: bind_run_Done_iff dest!: syncRequest_Done)

lemma names_loop_Done:
  "names_loop env gmc b cr ns s = Done u s' \<Longrightarrow>
     caches (fst s') = fold (request_step env) (map (binding_request b cr) ns) (caches (fst s))"
  by (induction ns arbitrary: s)
    (auto simp: bind_run_Done_iff binding_request_def Let_def dest!: syncRequest_Done)

lemma syncResources_Done:
  "syncResources env gmc s = Done names' s' \<Longrightarrow>
     caches (fst s') = fold (request_step env) (resource_requests env) (caches (fst s))
     \<and> names' = known_names env"
  by (auto simp: syncResources_def resource_requests_def known_names_def dest!: requests_loop_Done
      split: sum.splits)

lemma role_bindings_loop_Done:
  assumes "role_bindings_loop env gmc bs s = Done u s'" "caches (fst s) = fold (request_step env) rqs ac"
  shows "caches (fst s') = fold (request_step env) (concat (map (requests_of_binding env ac) bs)) (caches (fst s))"
  using assms
proof (induction bs arbitrary: s rqs)
  case (Cons b bs)
  show ?case
  proof (cases "lister_Get (clusterroleLister env) (ref_Name (binding_RoleRef b))")
    case (Inl e)
    with Cons show ?thesis by (auto simp: requests_of_binding_def)
  next
    case (Inr cr)
    have fields: "ac_group (fst s) = ac_group ac" "ac_resource (fst s) = ac_resource ac"
        "allKnownNames (fst s) = allKnownNames ac"
      using Cons.prems(2) by (metis caches_simps fold_request_step_fields)+
    then have "role_resources (fst s) cr = role_resources ac cr"
      by (simp add: role_resources_def split: prod.split)
    let ?ns = "sorted_list_of_fset (role_resources ac cr)"
    obtain v s1 where s1: "names_loop env gmc b cr ?ns s = Done v s1"
        and rest: "role_bindings_loop env gmc bs s1 = Done u s'"
      using Cons.prems(1) \<open>role_resources (fst s) cr = _\<close>
      unfolding role_bindings_loop_Cons by (auto simp: Inr bind_run_Done_iff)
    have c1: "caches (fst s1) = fold (request_step env) (requests_of_binding env ac b) (caches (fst s))"
      using names_loop_Done [OF s1] by (simp add: requests_of_binding_def Inr)
    have "caches (fst s1) = fold (request_step env) (rqs @ requests_of_binding env ac b) ac"
      by (simp add: c1 Cons.prems(2))
    from Cons.IH [OF rest this] show ?thesis by (simp add: c1)
  qed
qed simp

lemma synchronizeClusterRoleBindings_Done:
  assumes "synchronizeClusterRoleBindings env gmc s = Done u s'"
    "caches (fst s) = fold (request_step env) rqs ac"
  shows "caches (fst s') = fold (request_step env) (binding_requests env ac) (caches (fst s))"
  using assms role_bindings_loop_Done [of env _ s u s' rqs ac]
  by (auto simp: synchronizeClusterRoleBindings_def binding_requests_def split: sum.splits)

lemma for_each_notify_frame:
  "run_all (same_caches (fst s)) (for_each (\<lambda>n. notifyWatchers gmc n us gs) ns s)"
proof (rule run_all_for_each)
  show "same_caches (fst s) s" by (simp add: same_caches_def)
  fix n s'
  assume "same_caches (fst s) (s' :: 'h sys)"
  then show "run_all (same_caches (fst s)) (notifyWatchers gmc n us gs s')"
    using run_all_mono [OF notify_frame [of "fst s'" n us gs "snd s'"]] by (simp add: same_caches_def)
qed

lemma purge_Done:
  assumes "purgeDeletedResources env gmc old (known_names env) s = Done u s'"
  shows "caches (fst s') = purge env (caches (fst s))"
proof -
  obtain ac h where s: "s = (ac, h)" by (cases s)
  let ?ac = "purge_loop (known_names env) (store_List (record_order env) (reviewRecordStore ac)) ac"
  have "caches (fst s') = caches ?ac"
    using run_all_Done [OF for_each_notify_frame, of "{||}" "{||}" _ "(?ac, h)" u s'] assms
    by (simp add: purgeDeletedResources_def Let_def s same_caches_def)
  then show ?thesis by (simp add: purge_def s purge_loop_caches)
qed

text \<open>A pass that returns has done \<open>sync_step\<close> to the caches.\<close>

theorem synchronize_Done:
  assumes "synchronize env gmc s = Done u s'"
  shows "caches (fst s') = sync_step env (caches (fst s))"
proof -
  let ?ac = "caches (fst s)"
  obtain names s1 s2 s3 where
    1: "syncResources env gmc s = Done names s1" and
    2: "synchronizeClusterRoleBindings env gmc s1 = Done () s2" and
    3: "purgeDeletedResources env gmc (allKnownNames (fst s2)) names s2 = Done () s3" and
    4: "s' = ((fst s3)\<lparr>allKnownNames := names, lastState := sync_state env\<rparr>, snd s3)"
    using assms
    by (auto simp: synchronize_def SkipSynchronize_def sync_state_def bind_run_Done_iff Let_def)
  from 1 have c1: "caches (fst s1) = fold (request_step env) (resource_requests env) ?ac"
    and names: "names = known_names env"
    by (auto dest: syncResources_Done)
  have c2: "caches (fst s2) = fold (request_step env) (all_requests env ?ac) ?ac"
    using synchronizeClusterRoleBindings_Done [OF 2 c1] by (simp add: c1 all_requests_def)
  have c3: "caches (fst s3) = purge env (caches (fst s2))"
    using purge_Done 3 names by blast
  have "caches (fst s') = (caches (fst s3))\<lparr>allKnownNames := known_names env, lastState := sync_state env\<rparr>"
    by (simp add: 4 names caches_def)
  then show ?thesis by (simp add: sync_step_def c2 c3)
qed

end

end
