(* ===== verification/Watcher_Room.thy ===== *)
theory Watcher_Room
  imports Watcher_Contract
begin

text \<open>
  More on the watcher contract: the index invariant holds even in a state where a pass is
  stuck, and a pass returns when the watchers have room for all its notifications. Room is
  counted in calls of \<open>GroupMembershipChanged\<close>.
\<close>

section \<open>Invariants, blocked or not\<close>

text \<open>
  A property of the caches that single reviews and the purge preserve; such a property holds
  in every state a pass can end in, also when the pass is stuck half way.
\<close>

definition step_closed :: "sync_env \<Rightarrow> (auth_cache \<Rightarrow> bool) \<Rightarrow> bool" where
  "step_closed env P \<longleftrightarrow>
     (\<forall>ac. P (caches ac) = P ac)
     \<and> (\<forall>ac rq. P ac \<longrightarrow> P (request_step env rq ac))
     \<and> (\<forall>ac new. P ac \<longrightarrow> P (purge_loop new (store_List (record_order env) (reviewRecordStore ac)) ac))
     \<and> (\<forall>ac ns st. P ac \<longrightarrow> P (ac\<lparr>allKnownNames := ns, lastState := st\<rparr>))"

definition sys_inv :: "'h sys \<Rightarrow> bool" where
  "sys_inv s \<longleftrightarrow> cache_inv (fst s)"

lemma run_all_same_caches:
  assumes "step_closed env P" "P ac" "run_all (same_caches ac) r"
  shows "run_all (\<lambda>s. P (fst s)) r"
proof (rule run_all_mono [OF assms(3)])
  fix s assume "same_caches ac s"
  then show "P (fst s)"
    using assms(1,2) unfolding step_closed_def same_caches_def by metis
qed

lemma cache_inv_step_closed:
  assumes "range_order (record_order env)"
  shows "step_closed env cache_inv"
  unfolding step_closed_def
proof (intro conjI allI impI)
  fix ac new assume inv: "cache_inv ac"
  then have key: "keyed_by reviewRecordKeyFn (reviewRecordStore ac)"
    by (simp add: cache_inv_def)
  show "cache_inv (purge_loop new (store_List (record_order env) (reviewRecordStore ac)) ac)"
    using inv store_List_keys [OF assms key] by (intro purge_loop_inv [THEN conjunct1]) auto
qed (simp_all add: request_step_inv)

text \<open>How often a pass notifies at most: once per request, and once per name that is gone.\<close>

definition notification_bound :: "sync_env \<Rightarrow> auth_cache \<Rightarrow> nat" where
  "notification_bound env ac =
     length (all_requests env ac) + fcard (allKnownNames ac |-| known_names env)"

context cache_watcher
begin

lemma syncRequest_closed:
  assumes "step_closed env P" "P (fst s)"
  shows "run_all (\<lambda>s. P (fst s)) (syncRequest env gmc rq s)"
proof -
  have "run_all (same_caches (request_step env rq (fst s))) (syncRequest env gmc rq s)"
    using syncRequest_frame [of env rq "fst s" "snd s"] by simp
  moreover have "P (request_step env rq (fst s))"
    using assms by (simp add: step_closed_def)
  ultimately show ?thesis by (rule run_all_same_caches [OF assms(1), rotated])
qed

lemma requests_loop_closed:
  "step_closed env P \<Longrightarrow> P (fst s) \<Longrightarrow> run_all (\<lambda>s. P (fst s)) (requests_loop env gmc rqs names s)"
  by (induction rqs arbitrary: names s) (auto intro!: run_all_bind syncRequest_closed)

lemma names_loop_closed:
  "step_closed env P \<Longrightarrow> P (fst s) \<Longrightarrow> run_all (\<lambda>s. P (fst s)) (names_loop env gmc b cr ns s)"
  by (induction ns arbitrary: s) (auto simp: Let_def intro!: run_all_bind syncRequest_closed)

lemma role_bindings_loop_closed:
  "step_closed env P \<Longrightarrow> P (fst s) \<Longrightarrow> run_all (\<lambda>s. P (fst s)) (role_bindings_loop env gmc bs s)"
  by (induction bs arbitrary: s)
    (auto simp: Let_def split: sum.splits prod.splits intro!: run_all_bind names_loop_closed)

lemma purge_closed:
  assumes "step_closed env P" "P (fst s)"
  shows "run_all (\<lambda>s. P (fst s)) (purgeDeletedResources env gmc old new s)"
proof -
  obtain ac h where s: "s = (ac, h)" by (cases s)
  let ?ac = "purge_loop new (store_List (record_order env) (reviewRecordStore ac)) ac"
  have "P ?ac"
    using assms by (simp add: s step_closed_def)
  then have "run_all (\<lambda>s. P (fst s)) (for_each (\<lambda>n. notifyWatchers gmc n {||} {||}) ns (?ac, h))" for ns
    by (rule run_all_same_caches [OF assms(1)]) (use for_each_notify_frame [of "(?ac, h)"] in simp)
  then show ?thesis by (simp add: purgeDeletedResources_def s Let_def)
qed

lemma synchronize_closed:
  assumes "step_closed env P" "P (fst s)"
  shows "run_all (\<lambda>s. P (fst s)) (synchronize env gmc s)"
proof -
  have 1: "run_all (\<lambda>s. P (fst s)) (syncResources env gmc s)"
    using assms by (auto simp: syncResources_def requests_loop_closed split: sum.splits)
  have 2: "P (fst s') \<Longrightarrow> run_all (\<lambda>s. P (fst s)) (synchronizeClusterRoleBindings env gmc s')" for s'
    using assms(1)
    by (auto simp: synchronizeClusterRoleBindings_def role_bindings_loop_closed split: sum.splits)
  have 4: "run_all (\<lambda>s. P (fst s))
      (bind_run r (\<lambda>_ (ac, h). Done () (ac\<lparr>allKnownNames := ns, lastState := st\<rparr>, h)))"
    if "run_all (\<lambda>s. P (fst s)) r" for r :: "(unit, 'h sys) run" and ns st
    using that assms(1) by (cases r) (auto simp: step_closed_def)
  show ?thesis
    unfolding synchronize_def SkipSynchronize_def Let_def prod.case
    by (intro run_all_bind [OF 1] run_all_bind [OF 2] 4 purge_closed [OF assms(1)])
qed

lemma synchronize_inv:
  "sys_inv s \<Longrightarrow> range_order (record_order env) \<Longrightarrow> run_all sys_inv (synchronize env gmc s)"
  using synchronize_closed [OF cache_inv_step_closed, where s = s] by (simp add: sys_inv_def [abs_def])

end

section \<open>Watchers with room\<close>

locale roomy_watcher = cache_watcher gmc
  for gmc :: "'h gmc" +
  fixes room :: "nat \<Rightarrow> 'h \<Rightarrow> bool"
  assumes room_less: "room (Suc k) h \<Longrightarrow> room k h"
    and gmc_room: "watcherLocked ac \<Longrightarrow> room (Suc k) h \<Longrightarrow>
          \<exists>h'. gmc w n us gs (ac, h) = Done () (ac, h') \<and> room k h'"
begin

lemma room_drop: "room (j + k) h \<Longrightarrow> room k h"
  by (induction j) (auto dest: room_less)

lemma for_each_gmc_room:
  "watcherLocked ac \<Longrightarrow> room (length ws + k) h \<Longrightarrow>
     \<exists>h'. for_each (\<lambda>w. gmc w n us gs) ws (ac, h) = Done () (ac, h') \<and> room k h'"
proof (induction ws arbitrary: h)
  case (Cons w ws)
  then obtain h1 where "gmc w n us gs (ac, h) = Done () (ac, h1)" "room (length ws + k) h1"
    using gmc_room [of ac "length ws + k" h w n us gs] by auto
  with Cons show ?case by simp
qed simp

lemma notify_room:
  assumes "\<not> watcherLocked ac" "room (length (watchers ac) + k) h"
  shows "\<exists>h'. notifyWatchers gmc n us gs (ac, h) = Done () (ac, h') \<and> room k h'"
proof -
  obtain h' where "for_each (\<lambda>w. gmc w n us gs) (watchers ac) (ac\<lparr>watcherLocked := True\<rparr>, h)
      = Done () (ac\<lparr>watcherLocked := True\<rparr>, h')" "room k h'"
    using for_each_gmc_room [of "ac\<lparr>watcherLocked := True\<rparr>" "watchers ac" k h n us gs] assms(2) by auto
  with assms(1) show ?thesis by (simp add: notifyWatchers_def with_lock_def)
qed

text \<open>Each request notifies at most once.\<close>

lemma syncRequest_room:
  assumes "\<not> watcherLocked ac" "room (length (watchers ac) + k) h"
  shows "\<exists>e h'. syncRequest env gmc rq (ac, h) = Done e (request_step env rq ac, h') \<and> room k h'"
proof (cases "skipped ac rq \<or> (\<exists>e. reviewed env ac (rq_name rq) = Inl e)")
  case True
  then show ?thesis
    using room_drop [OF assms(2)] by (auto simp: syncRequest_eq request_step_def)
next
  case False
  then obtain rv where rv: "reviewed env ac (rq_name rq) = Inr rv" "\<not> skipped ac rq"
    by (cases "reviewed env ac (rq_name rq)") auto
  then obtain h' where "notifyWatchers gmc (rq_name rq) (fset_of_list (review_Users rv))
      (fset_of_list (review_Groups rv)) (request_step env rq ac, h) = Done () (request_step env rq ac, h')"
      "room k h'"
    using notify_room [of "request_step env rq ac" k h "rq_name rq" "fset_of_list (review_Users rv)"
        "fset_of_list (review_Groups rv)"] assms by auto
  with rv show ?thesis by (simp add: syncRequest_eq)
qed

lemma requests_loop_room:
  "\<not> watcherLocked ac \<Longrightarrow> room (length rqs * length (watchers ac) + k) h \<Longrightarrow>
     \<exists>names' h'. requests_loop env gmc rqs names (ac, h)
       = Done names' (fold (request_step env) rqs ac, h') \<and> room k h'"
proof (induction rqs arbitrary: names ac h)
  case (Cons rq rqs)
  have "room (length (watchers ac) + (length rqs * length (watchers ac) + k)) h"
    using Cons.prems(2) by (simp add: add.assoc)
  then obtain e h1 where "syncRequest env gmc rq (ac, h) = Done e (request_step env rq ac, h1)"
      "room (length rqs * length (watchers ac) + k) h1"
    using syncRequest_room [OF Cons.prems(1)] by blast
  with Cons.IH [of "request_step env rq ac" h1] Cons.prems(1) show ?case by simp
qed simp

lemma names_loop_as_requests:
  "names_loop env gmc b cr ns s =
     bind_run (requests_loop env gmc (map (binding_request b cr) ns) names s) (\<lambda>_. Done ())"
proof (induction ns arbitrary: s names)
  case (Cons n ns)
  have "names_loop env gmc b cr (n # ns) s =
      bind_run (syncRequest env gmc (binding_request b cr n) s) (\<lambda>_. names_loop env gmc b cr ns)"
    by (simp add: binding_request_def Let_def)
  moreover have "rq_name (binding_request b cr n) = n"
    by (simp add: binding_request_def)
  ultimately show ?case
    by (cases "syncRequest env gmc (binding_request b cr n) s")
      (simp_all add: Cons.IH [of _ "finsert n names"])
qed simp

lemma role_bindings_loop_room:
  assumes "\<not> watcherLocked ac"
    and "room (length (concat (map (requests_of_binding env ac) bs)) * length (watchers ac) + k) h"
  shows "\<exists>h'. role_bindings_loop env gmc bs (ac, h)
       = Done () (fold (request_step env) (concat (map (requests_of_binding env ac) bs)) ac, h') \<and> room k h'"
  using assms
proof (induction bs arbitrary: ac h)
  case (Cons b bs)
  show ?case
  proof (cases "lister_Get (clusterroleLister env) (ref_Name (binding_RoleRef b))")
    case (Inl e)
    with Cons show ?thesis by (simp add: requests_of_binding_def)
  next
    case (Inr cr)
    let ?rqs = "requests_of_binding env ac b"
    let ?ac = "fold (request_step env) ?rqs ac"
    have rqs: "?rqs = map (binding_request b cr) (sorted_list_of_fset (role_resources ac cr))"
      by (simp add: requests_of_binding_def Inr)
    have same: "requests_of_binding env ?ac = requests_of_binding env ac"
      by (rule requests_of_binding_cong) simp_all
    have "room (length ?rqs * length (watchers ac)
        + (length (concat (map (requests_of_binding env ac) bs)) * length (watchers ac) + k)) h"
      using Cons.prems(2) by (simp add: algebra_simps)
    then obtain names' h1 where "requests_loop env gmc ?rqs {||} (ac, h) = Done names' (?ac, h1)"
      and h1: "room (length (concat (map (requests_of_binding env ac) bs)) * length (watchers ac) + k) h1"
      using requests_loop_room [OF Cons.prems(1)] by blast
    then have step: "names_loop env gmc b cr (sorted_list_of_fset (role_resources ac cr)) (ac, h)
        = Done () (?ac, h1)"
      by (simp add: names_loop_as_requests [where names = "{||}"] rqs)
    have "\<exists>h'. role_bindings_loop env gmc bs (?ac, h1) = Done () (fold (request_step env)
        (concat (map (requests_of_binding env ?ac) bs)) ?ac, h') \<and> room k h'"
      using Cons.prems(1) h1 by (intro Cons.IH) (simp_all add: same)
    then show ?thesis
      unfolding role_bindings_loop_Cons by (simp add: Inr step same)
  qed
qed simp

lemma for_each_notify_room:
  "\<not> watcherLocked ac \<Longrightarrow> room (length ns * length (watchers ac) + k) h \<Longrightarrow>
     \<exists>h'. for_each (\<lambda>n. notifyWatchers gmc n us gs) ns (ac, h) = Done () (ac, h') \<and> room k h'"
proof (induction ns arbitrary: h)
  case (Cons n ns)
  then have "room (length (watchers ac) + (length ns * length (watchers ac) + k)) h"
    by (simp add: add.assoc)
  then obtain h1 where "notifyWatchers gmc n us gs (ac, h) = Done () (ac, h1)"
      "room (length ns * length (watchers ac) + k) h1"
    using notify_room [OF Cons.prems(1)] by blast
  with Cons show ?case by simp
qed simp

lemma bindings_room:
  assumes "\<not> watcherLocked ac" "room (length (binding_requests env ac) * length (watchers ac) + k) h"
  obtains h' where "synchronizeClusterRoleBindings env gmc (ac, h)
      = Done () (fold (request_step env) (binding_requests env ac) ac, h')" "room k h'"
proof (cases "lister_List (clusterrolebindingLister env)")
  case (Inl e)
  with assms(2) show ?thesis
    by (intro that [of h]) (auto simp: synchronizeClusterRoleBindings_def binding_requests_def)
next
  case (Inr bs)
  then have "concat (map (requests_of_binding env ac) bs) = binding_requests env ac"
    by (simp add: binding_requests_def)
  with role_bindings_loop_room [of ac env bs k h] assms
  obtain h' where "role_bindings_loop env gmc bs (ac, h)
      = Done () (fold (request_step env) (binding_requests env ac) ac, h')" "room k h'"
    by auto
  with that show ?thesis by (simp add: synchronizeClusterRoleBindings_def Inr)
qed

theorem synchronize_room:
  assumes "\<not> watcherLocked ac" "range_order (name_order env)"
    and "room (notification_bound env ac * length (watchers ac)) h"
  shows "\<exists>h'. synchronize env gmc (ac, h) = Done () (sync_step env ac, h')"
proof -
  let ?W = "length (watchers ac)"
  let ?gone = "name_order env (sorted_list_of_fset (allKnownNames ac |-| known_names env))"
  let ?ac1 = "fold (request_step env) (resource_requests env) ac"
  let ?ac2 = "fold (request_step env) (all_requests env ac) ac"
  have "length ?gone = fcard (allKnownNames ac |-| known_names env)"
    using assms(2) unfolding range_order_def
    by (metis fcard.rep_eq length_sorted_list_of_set size_mset sorted_list_of_fset.rep_eq)
  then have "room (length (resource_requests env) * ?W
      + (length (binding_requests env ac) * ?W + (length ?gone * ?W + 0))) h"
    using assms(3) by (simp add: notification_bound_def all_requests_def algebra_simps)
  then obtain names h1 where 1: "requests_loop env gmc (resource_requests env) {||} (ac, h) = Done names (?ac1, h1)"
    and r1: "room (length (binding_requests env ac) * ?W + (length ?gone * ?W + 0)) h1"
    using requests_loop_room [OF assms(1)] by blast
  have names: "names = known_names env"
    using requests_loop_Done [OF 1] by (simp add: known_names_def)
  have s1: "syncResources env gmc (ac, h) = Done (known_names env) (?ac1, h1)"
    using 1 names by (cases "syncRequests env")
      (auto simp: syncResources_def resource_requests_def known_names_def)
  have same: "binding_requests env ?ac1 = binding_requests env ac"
    by (rule binding_requests_cong) simp_all
  obtain h2 where "synchronizeClusterRoleBindings env gmc (?ac1, h1)
      = Done () (fold (request_step env) (binding_requests env ?ac1) ?ac1, h2)"
    and r2: "room (length ?gone * ?W + 0) h2"
    using bindings_room [of ?ac1 env "length ?gone * ?W + 0" h1] assms(1) r1 same by auto
  then have s2: "synchronizeClusterRoleBindings env gmc (?ac1, h1) = Done () (?ac2, h2)"
    by (simp add: same all_requests_def)
  let ?ac3 = "purge env ?ac2"
  have "\<not> watcherLocked ?ac3" "watchers ?ac3 = watchers ac"
    using assms(1) by (simp_all add: purge_def)
  then obtain h3 where
    "for_each (\<lambda>n. notifyWatchers gmc n {||} {||}) ?gone (?ac3, h2) = Done () (?ac3, h3)"
    using for_each_notify_room [of ?ac3 ?gone 0 h2 "{||}" "{||}"] r2 by auto
  then have s3: "purgeDeletedResources env gmc (allKnownNames ac) (known_names env) (?ac2, h2) = Done () (?ac3, h3)"
    by (simp add: purgeDeletedResources_def purge_def Let_def)
  show ?thesis
    by (simp add: synchronize_def SkipSynchronize_def Let_def s1 s2 s3 sync_step_def sync_state_def)
qed

end

end
