(* ===== verification/Cache_Watch.thy ===== *)
theory Cache_Watch
  imports Watcher_Room
begin

text \<open>
  \<^verbatim>\<open>pkg/cache/watcher.go\<close>, the part that runs on the goroutine of the synchronisation: how a
  watch is created and what \<open>GroupMembershipChanged\<close> does to it. Watches live in a heap of
  the system state; their channels are lists with the capacities of the source.
\<close>

section \<open>Events and watches\<close>

datatype event_type = Added | Modified | Deleted | Bookmark | Error

record watch_event =
  ev_Type :: event_type
  ev_Object :: runtime_object

record watch =
  w_user :: user_info
  visibleResources :: "string fset"
  cacheIncoming :: "watch_event list"
  cacheError :: "go_error list"
  userStop :: bool                              \<comment> \<open>the channel is closed\<close>
  initialResources :: "api_object list"
  knownResources :: "(string, string) fmap"     \<comment> \<open>name to resource version\<close>

definition cacheIncoming_cap :: nat where "cacheIncoming_cap = 1000"
definition cacheError_cap :: nat where "cacheError_cap = 1"

type_synonym watch_heap = "(watcher_id, watch) fmap"

text \<open>The interface \<open>WatchableCache\<close>.\<close>

record watchable =
  wc_RemoveWatcher :: "watcher_id \<Rightarrow> watch_heap sys \<Rightarrow> (unit, watch_heap sys) run"
  wc_ListObjects :: "user_info \<Rightarrow> runtime_object result"
  wc_Get :: "string \<Rightarrow> api_object result"
  wc_ConvertResource :: "string \<Rightarrow> api_object"

section \<open>Operations\<close>

fun known_loop :: "api_object list \<Rightarrow> (string, string) fmap \<Rightarrow> (string, string) fmap" where
  "known_loop [] known = known"
| "known_loop (object # rest) known =
     known_loop rest (fmupd (GetName object) (GetResourceVersion object) known)"

text \<open>Errors of listing and extracting are dropped; the list is then nil.\<close>

definition NewCacheWatcher :: "user_info \<Rightarrow> string fset \<Rightarrow> watchable \<Rightarrow> bool \<Rightarrow> watch" where
  "NewCacheWatcher user visible authCache includeAllExistingProjects =
     (let objs = (case wc_ListObjects authCache user of
                    Inl _ \<Rightarrow> []
                  | Inr objectList \<Rightarrow>
                      (case ExtractList objectList of Inl _ \<Rightarrow> [] | Inr objs \<Rightarrow> objs))
      in \<lparr>w_user = user, visibleResources = visible, cacheIncoming = [], cacheError = [],
          userStop = False,
          initialResources = (if includeAllExistingProjects then objs else []),
          knownResources = known_loop objs fmempty\<rparr>)"

text \<open>\<open>w.cacheError <- err\<close>: a send on a full channel waits.\<close>

definition send_error :: "watcher_id \<Rightarrow> go_error \<Rightarrow> watch_heap sys \<Rightarrow> (unit, watch_heap sys) run" where
  "send_error w err s =
     (let (ac, heap) = s in
      case fmlookup heap w of
        None \<Rightarrow> Done () s
      | Some cw \<Rightarrow>
          if length (cacheError cw) < cacheError_cap
          then Done () (ac, fmupd w (cw\<lparr>cacheError := cacheError cw @ [err]\<rparr>) heap)
          else Blocked s)"

text \<open>
  The \<open>select\<close> with a default: the event is queued if the channel has room; otherwise the
  watcher is removed and the error sent. \<open>cw\<close> is the watch with its known resources already
  updated.
\<close>

definition push_event ::
  "watchable \<Rightarrow> watcher_id \<Rightarrow> watch_event \<Rightarrow> go_error \<Rightarrow> watch \<Rightarrow> watch_heap sys
    \<Rightarrow> (unit, watch_heap sys) run" where
  "push_event wc w event timeout cw s =
     (let (ac, heap) = s in
      if length (cacheIncoming cw) < cacheIncoming_cap
      then Done () (ac, fmupd w (cw\<lparr>cacheIncoming := cacheIncoming cw @ [event]\<rparr>) heap)
      else bind_run (wc_RemoveWatcher wc w (ac, fmupd w cw heap)) (\<lambda>_. send_error w timeout))"

text \<open>
  A watcher address always points to a watch; an address outside the heap stands for a
  watch of no interest, on which the call does nothing.
\<close>

definition GroupMembershipChanged :: "watchable \<Rightarrow> watch_heap gmc" where
  "GroupMembershipChanged wc w name users groups s =
     (let (ac, heap) = s in
      case fmlookup heap w of
        None \<Rightarrow> Done () s
      | Some cw \<Rightarrow>
          if ''*'' |\<notin>| visibleResources cw \<and> name |\<notin>| visibleResources cw then Done () s
          else
            let hasAccess = (user_Name (w_user cw) |\<in>| users
                             \<or> list_ex (\<lambda>g. g |\<in>| groups) (user_Groups (w_user cw)));
                known = (fmlookup (knownResources cw) name \<noteq> None)
            in if \<not> hasAccess \<and> known then
                 push_event wc w
                   \<lparr>ev_Type = Deleted, ev_Object = Item (wc_ConvertResource wc name)\<rparr>
                   (ErrorText ''delete notification timeout'')
                   (cw\<lparr>knownResources := fmdrop name (knownResources cw)\<rparr>) s
               else if hasAccess then
                 (case wc_Get wc name of
                    Inl err \<Rightarrow> Done () s
                  | Inr object \<Rightarrow>
                      if fmlookup (knownResources cw) name = Some (GetResourceVersion object)
                      then Done () s
                      else push_event wc w
                             \<lparr>ev_Type = (if known then Modified else Added),
                              ev_Object = Item object\<rparr>
                             (ErrorText ''add notification timeout'')
                             (cw\<lparr>knownResources :=
                                fmupd name (GetResourceVersion object) (knownResources cw)\<rparr>) s)
               else Done () s)"

definition makeErrorEvent :: "go_error \<Rightarrow> watch_event" where
  "makeErrorEvent err = \<lparr>ev_Type = Error, ev_Object = Status ''Failure'' err\<rparr>"

text \<open>\<open>Stop\<close> closes the channel once.\<close>

definition Stop :: "watcher_id \<Rightarrow> watch_heap \<Rightarrow> watch_heap" where
  "Stop w heap =
     (case fmlookup heap w of
        None \<Rightarrow> heap
      | Some cw \<Rightarrow> if userStop cw then heap else fmupd w (cw\<lparr>userStop := True\<rparr>) heap)"

section \<open>The contract of a watchable cache\<close>

text \<open>
  What a watch relies on: removal is the removal of the authorization cache (which takes the
  mutex), and objects come back under the name asked for.
\<close>

locale watchable_cache =
  fixes wc :: watchable
  assumes removes: "wc_RemoveWatcher wc = RemoveWatcher"
    and get_name: "wc_Get wc n = Inr object \<Longrightarrow> GetName object = n"
    and convert_name: "GetName (wc_ConvertResource wc n) = n"
begin

lemma push_room:
  "length (cacheIncoming cw) < cacheIncoming_cap \<Longrightarrow>
     push_event wc w ev err cw (ac, heap) =
       Done () (ac, fmupd w (cw\<lparr>cacheIncoming := cacheIncoming cw @ [ev]\<rparr>) heap)"
  by (simp add: push_event_def)

text \<open>
  With the mutex held, as it always is when the cache notifies, a full channel blocks the
  caller in \<open>RemoveWatcher\<close>; the error is never sent.
\<close>

lemma push_full:
  "\<not> length (cacheIncoming cw) < cacheIncoming_cap \<Longrightarrow> watcherLocked ac \<Longrightarrow>
     push_event wc w ev err cw (ac, heap) = Blocked (ac, fmupd w cw heap)"
  by (simp add: push_event_def removes RemoveWatcher_eq)

lemma push_frame: "run_all (same_caches ac) (push_event wc w ev err cw (ac, heap))"
  by (auto simp: push_event_def removes RemoveWatcher_eq send_error_def split: option.splits)

lemma gmc_frame: "run_all (same_caches (fst s)) (GroupMembershipChanged wc w n us gs s)"
proof -
  obtain ac heap where s: "s = (ac, heap)" by (cases s)
  show ?thesis
    by (simp add: s GroupMembershipChanged_def push_frame Let_def split: option.split sum.split)
qed

end

definition heap_room :: "nat \<Rightarrow> watch_heap \<Rightarrow> bool" where
  "heap_room k heap \<longleftrightarrow>
     (\<forall>w cw. fmlookup heap w = Some cw \<longrightarrow> length (cacheIncoming cw) + k \<le> cacheIncoming_cap)"

lemma heap_room_upd:
  "heap_room (Suc k) heap \<Longrightarrow> length (cacheIncoming cw) + k \<le> cacheIncoming_cap
     \<Longrightarrow> heap_room k (fmupd w cw heap)"
  by (auto simp: heap_room_def dest: spec split: if_splits) (metis Suc_leD add_Suc_right)

context watchable_cache
begin

lemma push_event_room:
  assumes "heap_room (Suc k) heap" "length (cacheIncoming cw) + Suc k \<le> cacheIncoming_cap"
  shows "\<exists>h'. push_event wc w ev err cw (ac, heap) = Done () (ac, h') \<and> heap_room k h'"
proof -
  have "length (cacheIncoming cw) < cacheIncoming_cap" using assms(2) by simp
  with assms show ?thesis by (simp add: push_room heap_room_upd)
qed

lemma gmc_heap_room:
  assumes "heap_room (Suc k) heap"
  shows "\<exists>h'. GroupMembershipChanged wc w n us gs (ac, heap) = Done () (ac, h') \<and> heap_room k h'"
proof -
  have less: "heap_room k heap"
    using assms by (auto simp: heap_room_def) (metis Suc_leD add_Suc_right)
  show ?thesis
  proof (cases "fmlookup heap w")
    case None
    with less show ?thesis by (simp add: GroupMembershipChanged_def)
  next
    case (Some cw)
    with assms have "length (cacheIncoming cw) + Suc k \<le> cacheIncoming_cap"
      by (auto simp: heap_room_def)
    then show ?thesis
      using less push_event_room [OF assms]
      by (simp add: GroupMembershipChanged_def Some Let_def split: sum.split)
  qed
qed

end

sublocale watchable_cache \<subseteq> roomy_watcher "GroupMembershipChanged wc" heap_room
  using gmc_frame gmc_heap_room
  by unfold_locales (auto simp: heap_room_def intro: Suc_leD)

text \<open>The two contracts, by name.\<close>

lemma watchable_cache_watches: "watchable_cache wc \<Longrightarrow> cache_watcher (GroupMembershipChanged wc)"
  by (intro cache_watcher.intro watchable_cache.gmc_frame)

lemma watchable_cache_roomy:
  "watchable_cache wc \<Longrightarrow> roomy_watcher (GroupMembershipChanged wc) heap_room"
  by (intro roomy_watcher.intro watchable_cache_watches roomy_watcher_axioms.intro
      watchable_cache.gmc_heap_room) (auto simp: heap_room_def intro: Suc_leD)

end
