(* ===== verification/Typed_Caches.thy ===== *)
theory Typed_Caches
  imports Cache_Watch
begin

text \<open>
  \<^verbatim>\<open>pkg/cache/managedcluster.go\<close> and \<^verbatim>\<open>managedclusterset.go\<close>: the authorization cache
  instantiated for clusters and for cluster sets. The two files repeat each other, and so
  do the definitions; their common behaviour is proved once, in the locales below.
\<close>

section \<open>Clusters\<close>

definition cluster_group :: string where
  "cluster_group = ''cluster.open-cluster-management.io''"

definition NewClusterCache :: auth_cache where
  "NewClusterCache = NewAutchCache cluster_group ''managedclusters''"

fun cluster_requests_loop :: "managed_cluster list \<Rightarrow> review_request list \<Rightarrow> review_request list" where
  "cluster_requests_loop [] reqs = reqs"
| "cluster_requests_loop (cluster # rest) reqs =
     cluster_requests_loop rest
       (reqs @ [\<lparr>rq_name = meta_Name (mc_Meta cluster),
                 rq_resourceVersion = meta_ResourceVersion (mc_Meta cluster),
                 rq_roleUIDToResourceVersion = fmempty,
                 rq_roleBindingUIDToResourceVersion = fmempty\<rparr>])"

definition ClusterCache_ListResources :: "managed_cluster lister \<Rightarrow> review_request list result" where
  "ClusterCache_ListResources clusterLister =
     (case lister_List clusterLister of
        Inl err \<Rightarrow> Inl err
      | Inr clusters \<Rightarrow> Inr (cluster_requests_loop clusters []))"

fun cluster_list_loop ::
  "managed_cluster lister \<Rightarrow> selector \<Rightarrow> string list \<Rightarrow> managed_cluster list
    \<Rightarrow> managed_cluster list result" where
  "cluster_list_loop clusterLister sel [] items = Inr items"
| "cluster_list_loop clusterLister sel (key # rest) items =
     (case lister_Get clusterLister key of
        Inl err \<Rightarrow>
          if IsNotFound err then cluster_list_loop clusterLister sel rest items else Inl err
      | Inr cluster \<Rightarrow>
          if \<not> sel (meta_Labels (mc_Meta cluster))
          then cluster_list_loop clusterLister sel rest items
          else cluster_list_loop clusterLister sel rest (items @ [cluster]))"

text \<open>\<open>ord\<close> is the order in which the runtime ranges over the set of names.\<close>

definition ClusterCache_List ::
  "(string list \<Rightarrow> string list) \<Rightarrow> auth_cache \<Rightarrow> managed_cluster lister \<Rightarrow> user_info \<Rightarrow> selector
    \<Rightarrow> managed_cluster list result" where
  "ClusterCache_List ord ac clusterLister userInfo sel =
     (let names = listNames ac userInfo
      in cluster_list_loop clusterLister sel (ord (sorted_list_of_fset names)) [])"

definition ClusterCache_ListObjects ::
  "(string list \<Rightarrow> string list) \<Rightarrow> auth_cache \<Rightarrow> managed_cluster lister \<Rightarrow> user_info
    \<Rightarrow> runtime_object result" where
  "ClusterCache_ListObjects ord ac clusterLister userInfo =
     map_sum id ManagedClusterList (ClusterCache_List ord ac clusterLister userInfo Everything)"

definition ClusterCache_Get :: "managed_cluster lister \<Rightarrow> string \<Rightarrow> api_object result" where
  "ClusterCache_Get clusterLister name = map_sum id ManagedCluster (lister_Get clusterLister name)"

definition empty_meta :: "string \<Rightarrow> object_meta" where
  "empty_meta name = \<lparr>meta_Name = name, meta_ResourceVersion = [], meta_Labels = fmempty\<rparr>"

definition ClusterCache_ConvertResource :: "managed_cluster lister \<Rightarrow> string \<Rightarrow> api_object" where
  "ClusterCache_ConvertResource clusterLister name =
     ManagedCluster (case lister_Get clusterLister name of
        Inl err \<Rightarrow> \<lparr>mc_Meta = empty_meta name, mc_Body = []\<rparr>
      | Inr cluster \<Rightarrow> cluster)"

definition ClusterCache_watchable ::
  "(string list \<Rightarrow> string list) \<Rightarrow> auth_cache \<Rightarrow> managed_cluster lister \<Rightarrow> watchable" where
  "ClusterCache_watchable ord ac clusterLister =
     \<lparr>wc_RemoveWatcher = RemoveWatcher,
      wc_ListObjects = ClusterCache_ListObjects ord ac clusterLister,
      wc_Get = ClusterCache_Get clusterLister,
      wc_ConvertResource = ClusterCache_ConvertResource clusterLister\<rparr>"

section \<open>Cluster sets\<close>

definition NewClusterSetCache :: auth_cache where
  "NewClusterSetCache = NewAutchCache cluster_group ''managedclustersets''"

fun clusterset_requests_loop :: "managed_cluster_set list \<Rightarrow> review_request list \<Rightarrow> review_request list" where
  "clusterset_requests_loop [] reqs = reqs"
| "clusterset_requests_loop (cluster # rest) reqs =
     clusterset_requests_loop rest
       (reqs @ [\<lparr>rq_name = meta_Name (mcs_Meta cluster),
                 rq_resourceVersion = meta_ResourceVersion (mcs_Meta cluster),
                 rq_roleUIDToResourceVersion = fmempty,
                 rq_roleBindingUIDToResourceVersion = fmempty\<rparr>])"

definition ClusterSetCache_ListResources :: "managed_cluster_set lister \<Rightarrow> review_request list result" where
  "ClusterSetCache_ListResources clustersetLister =
     (case lister_List clustersetLister of
        Inl err \<Rightarrow> Inl err
      | Inr clusters \<Rightarrow> Inr (clusterset_requests_loop clusters []))"

fun clusterset_list_loop ::
  "managed_cluster_set lister \<Rightarrow> selector \<Rightarrow> string list \<Rightarrow> managed_cluster_set list
    \<Rightarrow> managed_cluster_set list result" where
  "clusterset_list_loop clustersetLister sel [] items = Inr items"
| "clusterset_list_loop clustersetLister sel (key # rest) items =
     (case lister_Get clustersetLister key of
        Inl err \<Rightarrow>
          if IsNotFound err then clusterset_list_loop clustersetLister sel rest items else Inl err
      | Inr clusterset \<Rightarrow>
          if \<not> sel (meta_Labels (mcs_Meta clusterset))
          then clusterset_list_loop clustersetLister sel rest items
          else clusterset_list_loop clustersetLister sel rest (items @ [clusterset]))"

definition ClusterSetCache_List ::
  "(string list \<Rightarrow> string list) \<Rightarrow> auth_cache \<Rightarrow> managed_cluster_set lister \<Rightarrow> user_info \<Rightarrow> selector
    \<Rightarrow> managed_cluster_set list result" where
  "ClusterSetCache_List ord ac clustersetLister userInfo sel =
     (let names = listNames ac userInfo
      in clusterset_list_loop clustersetLister sel (ord (sorted_list_of_fset names)) [])"

definition ClusterSetCache_ListObjects ::
  "(string list \<Rightarrow> string list) \<Rightarrow> auth_cache \<Rightarrow> managed_cluster_set lister \<Rightarrow> user_info
    \<Rightarrow> runtime_object result" where
  "ClusterSetCache_ListObjects ord ac clustersetLister userInfo =
     map_sum id ManagedClusterSetList (ClusterSetCache_List ord ac clustersetLister userInfo Everything)"

definition ClusterSetCache_Get :: "managed_cluster_set lister \<Rightarrow> string \<Rightarrow> api_object result" where
  "ClusterSetCache_Get clustersetLister name =
     map_sum id ManagedClusterSet (lister_Get clustersetLister name)"

definition ClusterSetCache_ConvertResource :: "managed_cluster_set lister \<Rightarrow> string \<Rightarrow> api_object" where
  "ClusterSetCache_ConvertResource clustersetLister name =
     ManagedClusterSet (case lister_Get clustersetLister name of
        Inl err \<Rightarrow> \<lparr>mcs_Meta = empty_meta name, mcs_Body = []\<rparr>
      | Inr cluster \<Rightarrow> cluster)"

definition ClusterSetCache_watchable ::
  "(string list \<Rightarrow> string list) \<Rightarrow> auth_cache \<Rightarrow> managed_cluster_set lister \<Rightarrow> watchable" where
  "ClusterSetCache_watchable ord ac clustersetLister =
     \<lparr>wc_RemoveWatcher = RemoveWatcher,
      wc_ListObjects = ClusterSetCache_ListObjects ord ac clustersetLister,
      wc_Get = ClusterSetCache_Get clustersetLister,
      wc_ConvertResource = ClusterSetCache_ConvertResource clustersetLister\<rparr>"

section \<open>The listing loop, once for both kinds\<close>

locale listing_loop =
  fixes get :: "string \<Rightarrow> 'o result"
    and matches :: "'o \<Rightarrow> bool"
    and loop :: "string list \<Rightarrow> 'o list \<Rightarrow> 'o list result"
  assumes loop_Nil: "loop [] items = Inr items"
    and loop_Cons: "loop (key # rest) items =
      (case get key of
         Inl err \<Rightarrow> if IsNotFound err then loop rest items else Inl err
       | Inr obj \<Rightarrow> if matches obj then loop rest (items @ [obj]) else loop rest items)"
begin

text \<open>Errors other than NotFound abort the listing; otherwise it filters what exists.\<close>

lemma loop_found:
  assumes "\<forall>k \<in> set keys. \<forall>e. get k = Inl e \<longrightarrow> IsNotFound e"
  shows "loop keys items = Inr (items @ concat (map (\<lambda>k. case get k of
           Inl e \<Rightarrow> [] | Inr obj \<Rightarrow> if matches obj then [obj] else []) keys))"
  using assms by (induction keys arbitrary: items) (auto simp: loop_Nil loop_Cons split: sum.split)

lemma loop_ok_iff:
  "(\<exists>res. loop keys items = Inr res) \<longleftrightarrow> (\<forall>k \<in> set keys. \<forall>e. get k = Inl e \<longrightarrow> IsNotFound e)"
proof (induction keys arbitrary: items)
  case (Cons k keys)
  then show ?case by (cases "get k") (auto simp: loop_Cons)
qed (simp add: loop_Nil)

lemma loop_error:
  "loop keys items = Inl e \<Longrightarrow> \<not> IsNotFound e \<and> (\<exists>k \<in> set keys. get k = Inl e)"
  by (induction keys arbitrary: items) (auto simp: loop_Nil loop_Cons split: sum.splits if_splits)

lemma loop_set:
  assumes "loop keys items = Inr res"
  shows "set res = set items \<union> {obj. \<exists>k \<in> set keys. get k = Inr obj \<and> matches obj}"
proof -
  have "\<forall>k \<in> set keys. \<forall>e. get k = Inl e \<longrightarrow> IsNotFound e"
    using assms loop_ok_iff [of keys items] by blast
  from loop_found [OF this, of items] assms
  have "res = items @ concat (map (\<lambda>k. case get k of
           Inl e \<Rightarrow> [] | Inr obj \<Rightarrow> if matches obj then [obj] else []) keys)" by simp
  then show ?thesis by (fastforce split: sum.splits)
qed

lemma loop_distinct:
  assumes "loop keys [] = Inr res" "distinct keys" "\<And>k obj. get k = Inr obj \<Longrightarrow> name_of obj = k"
  shows "distinct res"
proof -
  define f where "f k = (case get k of Inl e \<Rightarrow> [] | Inr obj \<Rightarrow> if matches obj then [obj] else [])" for k
  have "\<forall>k \<in> set keys. \<forall>e. get k = Inl e \<longrightarrow> IsNotFound e"
    using assms(1) loop_ok_iff [of keys "[]"] by blast
  from loop_found [OF this, of "[]"] assms(1) have res: "res = concat (map f keys)"
    by (simp add: f_def [abs_def])
  have members: "name_of obj = k" if "obj \<in> set (f k)" for k obj
    using that assms(3) by (auto simp: f_def split: sum.splits if_splits)
  have "distinct (concat (map f ks))" if "distinct ks" for ks
    using that
  proof (induction ks)
    case (Cons k ks)
    have "set (f k) \<inter> set (concat (map f ks)) = {}"
    proof (rule ccontr)
      assume "\<not> ?thesis"
      then obtain obj k' where "obj \<in> set (f k)" "k' \<in> set ks" "obj \<in> set (f k')" by auto
      with members have "k = k'" by metis
      with Cons.prems \<open>k' \<in> set ks\<close> show False by simp
    qed
    moreover have "distinct (f k)" by (simp add: f_def split: sum.split)
    ultimately show ?case using Cons by (simp only: list.map concat.simps distinct_append) simp
  qed simp
  with assms(2) show ?thesis by (simp add: res)
qed

end

interpretation clusters: listing_loop "lister_Get l" "\<lambda>c. sel (meta_Labels (mc_Meta c))"
    "cluster_list_loop l sel" for l sel
  by unfold_locales (simp_all split: sum.split)

interpretation clustersets: listing_loop "lister_Get l" "\<lambda>c. sel (meta_Labels (mcs_Meta c))"
    "clusterset_list_loop l sel" for l sel
  by unfold_locales (simp_all split: sum.split)

section \<open>Watches on the two caches\<close>

lemma cluster_watchable_contract:
  assumes "\<And>n c. lister_Get l n = Inr c \<Longrightarrow> ClusterName c = n"
  shows "watchable_cache (ClusterCache_watchable ord ac l)"
  using assms
  by unfold_locales
    (auto simp: ClusterCache_watchable_def ClusterCache_Get_def ClusterCache_ConvertResource_def
      GetName_def ClusterName_def empty_meta_def split: sum.splits)

lemma clusterset_watchable_contract:
  assumes "\<And>n c. lister_Get l n = Inr c \<Longrightarrow> ClusterSetName c = n"
  shows "watchable_cache (ClusterSetCache_watchable ord ac l)"
  using assms
  by unfold_locales
    (auto simp: ClusterSetCache_watchable_def ClusterSetCache_Get_def
      ClusterSetCache_ConvertResource_def GetName_def ClusterSetName_def empty_meta_def
      split: sum.splits)

text \<open>The listers the server starts with: informers filled with the clusters of the hub.\<close>

definition clusterInformer_lister ::
  "(managed_cluster list \<Rightarrow> managed_cluster list) \<Rightarrow> managed_cluster list \<Rightarrow> managed_cluster lister" where
  "clusterInformer_lister ord cs = indexer_lister ''managedcluster'' ord (file_objects ClusterName cs)"

definition clustersetInformer_lister ::
  "(managed_cluster_set list \<Rightarrow> managed_cluster_set list) \<Rightarrow> managed_cluster_set list
    \<Rightarrow> managed_cluster_set lister" where
  "clustersetInformer_lister ord cs =
     indexer_lister ''managedclusterset'' ord (file_objects ClusterSetName cs)"

interpretation cluster_watches:
  watchable_cache "ClusterCache_watchable ord ac (clusterInformer_lister o' cs)" for ord ac o' cs
  by (rule cluster_watchable_contract) (auto simp: clusterInformer_lister_def dest: filed.get_name)

interpretation clusterset_watches:
  watchable_cache "ClusterSetCache_watchable ord ac (clustersetInformer_lister o' cs)" for ord ac o' cs
  by (rule clusterset_watchable_contract)
    (auto simp: clustersetInformer_lister_def dest: filed.get_name)

end
