(* ===== verification/Watch_Loop.thy ===== *)
theory Watch_Loop
  imports Cache_Watch
begin

text \<open>
  The goroutine of a watch (\<open>cacheWatcher.Watch\<close> of \<^verbatim>\<open>pkg/cache/watcher.go\<close>) as a step
  relation, interleaved with everything that can happen to the watch meanwhile: the
  synchronisation notifies, the client receives or stops, other watches come and go. A
  receive on an unbuffered channel is one step with the send. A \<open>select\<close> with several ready
  cases may take any of them.
\<close>

section \<open>Program points\<close>

datatype pc =
    AtInit nat                \<comment> \<open>top of the loop over the initial resources\<close>
  | EmitInit nat              \<comment> \<open>emitting initial resource \<open>i\<close>\<close>
  | AtSelect                  \<comment> \<open>top of the endless loop\<close>
  | EmitEvent watch_event
  | EmitError watch_event
  | Removing                  \<comment> \<open>deferred \<open>RemoveWatcher\<close>\<close>
  | Closing                   \<comment> \<open>deferred \<open>close(w.outgoing)\<close>\<close>
  | Returned

record goroutine =
  g_pc :: pc
  g_out :: "watch_event list"   \<comment> \<open>what the client received so far\<close>
  g_closed :: bool              \<comment> \<open>outgoing is closed\<close>

definition watch_start :: goroutine where
  "watch_start = \<lparr>g_pc = AtInit 0, g_out = [], g_closed = False\<rparr>"

text \<open>What the channel of results shows to a client: what it has received, and whether it is closed.\<close>

definition ResultChan :: "goroutine \<Rightarrow> watch_event list \<times> bool" where
  "ResultChan g = (g_out g, g_closed g)"

definition initial_event :: "api_object \<Rightarrow> watch_event" where
  "initial_event object = \<lparr>ev_Type = Added, ev_Object = Item object\<rparr>"

type_synonym watch_sys = "watch_heap sys \<times> goroutine"

inductive watch_step :: "watcher_id \<Rightarrow> watch_sys \<Rightarrow> watch_sys \<Rightarrow> bool" for w where
  init_error: "fmlookup heap w = Some cw \<Longrightarrow> g_pc g = AtInit i \<Longrightarrow> i < length (initialResources cw)
    \<Longrightarrow> cacheError cw = e # es \<Longrightarrow>
    watch_step w ((ac, heap), g)
      ((ac, fmupd w (cw\<lparr>cacheError := es\<rparr>) heap), g\<lparr>g_pc := EmitError (makeErrorEvent e)\<rparr>)"
| init_next: "fmlookup heap w = Some cw \<Longrightarrow> g_pc g = AtInit i \<Longrightarrow> i < length (initialResources cw)
    \<Longrightarrow> cacheError cw = [] \<Longrightarrow>
    watch_step w ((ac, heap), g) ((ac, heap), g\<lparr>g_pc := EmitInit i\<rparr>)"
| init_done: "fmlookup heap w = Some cw \<Longrightarrow> g_pc g = AtInit i \<Longrightarrow> \<not> i < length (initialResources cw) \<Longrightarrow>
    watch_step w ((ac, heap), g) ((ac, heap), g\<lparr>g_pc := AtSelect\<rparr>)"
| emit_init: "fmlookup heap w = Some cw \<Longrightarrow> g_pc g = EmitInit i \<Longrightarrow> i < length (initialResources cw) \<Longrightarrow>
    watch_step w ((ac, heap), g)
      ((ac, heap), g\<lparr>g_pc := AtInit (Suc i), g_out := g_out g @ [initial_event (initialResources cw ! i)]\<rparr>)"
| emit_init_stopped: "fmlookup heap w = Some cw \<Longrightarrow> g_pc g = EmitInit i \<Longrightarrow> userStop cw \<Longrightarrow>
    watch_step w ((ac, heap), g) ((ac, heap), g\<lparr>g_pc := AtInit (Suc i)\<rparr>)"
| select_error: "fmlookup heap w = Some cw \<Longrightarrow> g_pc g = AtSelect \<Longrightarrow> cacheError cw = e # es \<Longrightarrow>
    watch_step w ((ac, heap), g)
      ((ac, fmupd w (cw\<lparr>cacheError := es\<rparr>) heap), g\<lparr>g_pc := EmitError (makeErrorEvent e)\<rparr>)"
| select_stop: "fmlookup heap w = Some cw \<Longrightarrow> g_pc g = AtSelect \<Longrightarrow> userStop cw \<Longrightarrow>
    watch_step w ((ac, heap), g) ((ac, heap), g\<lparr>g_pc := Removing\<rparr>)"
| select_event: "fmlookup heap w = Some cw \<Longrightarrow> g_pc g = AtSelect \<Longrightarrow> cacheIncoming cw = ev # evs \<Longrightarrow>
    watch_step w ((ac, heap), g)
      ((ac, fmupd w (cw\<lparr>cacheIncoming := evs\<rparr>) heap), g\<lparr>g_pc := EmitEvent ev\<rparr>)"
| emit_event: "g_pc g = EmitEvent ev \<Longrightarrow>
    watch_step w (s, g) (s, g\<lparr>g_pc := AtSelect, g_out := g_out g @ [ev]\<rparr>)"
| emit_event_stopped: "fmlookup heap w = Some cw \<Longrightarrow> g_pc g = EmitEvent ev \<Longrightarrow> userStop cw \<Longrightarrow>
    watch_step w ((ac, heap), g) ((ac, heap), g\<lparr>g_pc := AtSelect\<rparr>)"
| emit_error: "g_pc g = EmitError ev \<Longrightarrow>
    watch_step w (s, g) (s, g\<lparr>g_pc := Removing, g_out := g_out g @ [ev]\<rparr>)"
| emit_error_stopped: "fmlookup heap w = Some cw \<Longrightarrow> g_pc g = EmitError ev \<Longrightarrow> userStop cw \<Longrightarrow>
    watch_step w ((ac, heap), g) ((ac, heap), g\<lparr>g_pc := Removing\<rparr>)"
| remove: "g_pc g = Removing \<Longrightarrow> RemoveWatcher w s = Done () s' \<Longrightarrow>
    watch_step w (s, g) (s', g\<lparr>g_pc := Closing\<rparr>)"
| close: "g_pc g = Closing \<Longrightarrow> watch_step w (s, g) (s, g\<lparr>g_pc := Returned, g_closed := True\<rparr>)"
| notify: "watchable_cache wc \<Longrightarrow>
    notifyWatchers (GroupMembershipChanged wc) n us gs s = Done () s' \<Longrightarrow> watch_step w (s, g) (s', g)"
| notify_stuck: "watchable_cache wc \<Longrightarrow>
    notifyWatchers (GroupMembershipChanged wc) n us gs s = Blocked s' \<Longrightarrow> watch_step w (s, g) (s', g)"
| stop: "watch_step w ((ac, heap), g) ((ac, Stop w heap), g)"
| other: "fmlookup heap' w = fmlookup heap w \<Longrightarrow> watcherLocked ac' = watcherLocked ac
    \<Longrightarrow> filter (\<lambda>v. v = w) (watchers ac') = filter (\<lambda>v. v = w) (watchers ac) \<Longrightarrow>
    watch_step w ((ac, heap), g) ((ac', heap'), g)"

inductive watch_reach :: "watcher_id \<Rightarrow> watch_heap sys \<Rightarrow> watch_sys \<Rightarrow> bool" for w s0 where
  reach_start: "watch_reach w s0 (s0, watch_start)"
| reach_step: "watch_reach w s0 x \<Longrightarrow> watch_step w x y \<Longrightarrow> watch_reach w s0 y"

section \<open>What a client can rebuild from the events\<close>

fun apply_event :: "watch_event \<Rightarrow> (string, string) fmap \<Rightarrow> (string, string) fmap" where
  "apply_event \<lparr>ev_Type = Added, ev_Object = Item obj\<rparr> m = fmupd (GetName obj) (GetResourceVersion obj) m"
| "apply_event \<lparr>ev_Type = Modified, ev_Object = Item obj\<rparr> m = fmupd (GetName obj) (GetResourceVersion obj) m"
| "apply_event \<lparr>ev_Type = Deleted, ev_Object = Item obj\<rparr> m = fmdrop (GetName obj) m"
| "apply_event _ m = m"

definition replica :: "(string, string) fmap \<Rightarrow> watch_event list \<Rightarrow> (string, string) fmap" where
  "replica base evs = fold apply_event evs base"

text \<open>An event that makes sense to a client that knows \<open>m\<close>.\<close>

fun event_ok :: "(string, string) fmap \<Rightarrow> watch_event \<Rightarrow> bool" where
  "event_ok m \<lparr>ev_Type = Added, ev_Object = Item obj\<rparr> = (fmlookup m (GetName obj) = None)"
| "event_ok m \<lparr>ev_Type = Modified, ev_Object = Item obj\<rparr> =
     (\<exists>v. fmlookup m (GetName obj) = Some v \<and> v \<noteq> GetResourceVersion obj)"
| "event_ok m \<lparr>ev_Type = Deleted, ev_Object = Item obj\<rparr> = (fmlookup m (GetName obj) \<noteq> None)"
| "event_ok m _ = False"

fun stream_ok :: "(string, string) fmap \<Rightarrow> watch_event list \<Rightarrow> bool" where
  "stream_ok m [] = True"
| "stream_ok m (e # es) = (event_ok m e \<and> stream_ok (apply_event e m) es)"

lemma replica_append: "replica base (xs @ ys) = replica (replica base xs) ys"
  by (simp add: replica_def)

lemma stream_ok_append: "stream_ok m (xs @ ys) \<longleftrightarrow> stream_ok m xs \<and> stream_ok (replica m xs) ys"
  by (induction xs arbitrary: m) (auto simp: replica_def)

lemma event_ok_type: "event_ok m e \<Longrightarrow> ev_Type e \<in> {Added, Modified, Deleted}"
  by (induction m e rule: event_ok.induct) auto

lemma stream_types: "stream_ok m es \<Longrightarrow> e \<in> set es \<Longrightarrow> ev_Type e \<in> {Added, Modified, Deleted}"
  by (induction m es rule: stream_ok.induct) (auto dest: event_ok_type)

section \<open>What a notification does to a watch\<close>

text \<open>A watch takes events while its channel has room; each event updates what it knows.\<close>

definition visible_event :: "watch \<Rightarrow> watch_event \<Rightarrow> bool" where
  "visible_event cw e \<longleftrightarrow>
     (\<exists>obj. ev_Object e = Item obj
        \<and> (''*'' |\<in>| visibleResources cw \<or> GetName obj |\<in>| visibleResources cw))"

inductive absorbs :: "watch \<Rightarrow> watch \<Rightarrow> bool" where
  absorb_none: "absorbs cw cw"
| absorb_event: "absorbs cw cw' \<Longrightarrow> length (cacheIncoming cw') < cacheIncoming_cap
    \<Longrightarrow> event_ok (knownResources cw') e \<Longrightarrow> visible_event cw' e \<Longrightarrow>
    absorbs cw (cw'\<lparr>knownResources := apply_event e (knownResources cw'),
                   cacheIncoming := cacheIncoming cw' @ [e]\<rparr>)"

lemma absorbs_trans: "absorbs b c \<Longrightarrow> absorbs a b \<Longrightarrow> absorbs a c"
  by (induction rule: absorbs.induct) (auto intro: absorbs.intros)

lemma absorbs_frame:
  "absorbs a b \<Longrightarrow> w_user b = w_user a \<and> visibleResources b = visibleResources a
     \<and> cacheError b = cacheError a \<and> userStop b = userStop a \<and> initialResources b = initialResources a"
  by (induction rule: absorbs.induct) auto

lemma absorbs_visible:
  "absorbs a b \<Longrightarrow> e \<in> set (cacheIncoming b) \<Longrightarrow> e \<in> set (cacheIncoming a) \<or> visible_event b e"
  by (induction rule: absorbs.induct) (auto simp: visible_event_def)

lemma absorbs_cap:
  "absorbs a b \<Longrightarrow> length (cacheIncoming a) \<le> cacheIncoming_cap \<Longrightarrow> length (cacheIncoming b) \<le> cacheIncoming_cap"
  by (induction rule: absorbs.induct) auto

lemma absorbs_replica:
  "absorbs a b \<Longrightarrow> replica base (xs @ cacheIncoming a) = knownResources a
     \<Longrightarrow> replica base (xs @ cacheIncoming b) = knownResources b"
  by (induction rule: absorbs.induct) (auto simp: replica_def)

lemma absorbs_stream:
  "absorbs a b \<Longrightarrow> replica base (xs @ cacheIncoming a) = knownResources a
     \<Longrightarrow> stream_ok base (xs @ cacheIncoming a) \<Longrightarrow> stream_ok base (xs @ cacheIncoming b)"
proof (induction rule: absorbs.induct)
  case (absorb_event cw cw' e)
  then have "replica base (xs @ cacheIncoming cw') = knownResources cw'"
    using absorbs_replica by blast
  with absorb_event have "stream_ok base ((xs @ cacheIncoming cw') @ [e])"
    by (subst stream_ok_append) simp
  then show ?case by simp
qed simp

end
