(* ===== verification/Watch_Facts.thy ===== *)
theory Watch_Facts
  imports Watch_Loop
begin

text \<open>
  Invariants of a watch over all interleavings: its channel never exceeds its capacity, its
  error channel stays empty, the events received, in flight and queued are a well-formed
  stream that rebuilds the known resources, and it leaves only when its user stops it.
\<close>

section \<open>A notification, seen from one watch\<close>

definition heap_rel :: "(watch \<Rightarrow> watch \<Rightarrow> bool) \<Rightarrow> watch_heap \<Rightarrow> watch_heap \<Rightarrow> bool" where
  "heap_rel R h h' \<longleftrightarrow> (\<forall>x. rel_option R (fmlookup h x) (fmlookup h' x))"

text \<open>The watch whose channel was full: what it knows has changed, nothing was queued.\<close>

definition stuck :: "watch \<Rightarrow> watch \<Rightarrow> bool" where
  "stuck a b \<longleftrightarrow> (\<exists>c m. absorbs a c \<and> b = c\<lparr>knownResources := m\<rparr>)"

lemma absorbs_stuck: "absorbs a b \<Longrightarrow> stuck a b"
  unfolding stuck_def by (intro exI [of _ b] exI [of _ "knownResources b"]) simp

lemma heap_rel_refl: "(\<And>x. R x x) \<Longrightarrow> heap_rel R h h"
  by (simp add: heap_rel_def option.rel_refl)

lemma heap_rel_upd:
  "(\<And>x. R x x) \<Longrightarrow> fmlookup h w = Some a \<Longrightarrow> R a b \<Longrightarrow> heap_rel R h (fmupd w b h)"
  by (auto simp: heap_rel_def option.rel_refl)

lemma heap_rel_lookup:
  "heap_rel R h h' \<Longrightarrow> fmlookup h w = Some a \<Longrightarrow> \<exists>b. fmlookup h' w = Some b \<and> R a b"
  unfolding heap_rel_def by (metis option_rel_Some1)

lemma heap_rel_absorbs_trans:
  assumes "heap_rel absorbs a b" "heap_rel R b c" "\<And>x y z. absorbs x y \<Longrightarrow> R y z \<Longrightarrow> R x z"
  shows "heap_rel R a c"
  unfolding heap_rel_def
proof
  fix x
  show "rel_option R (fmlookup a x) (fmlookup c x)"
    using assms(1) [unfolded heap_rel_def, THEN spec, of x] assms(2) [unfolded heap_rel_def, THEN spec, of x]
      assms(3)
    by (cases "fmlookup a x"; cases "fmlookup b x"; cases "fmlookup c x") auto
qed

lemma stuck_refl: "stuck a a" by (rule absorbs_stuck) (rule absorb_none)

lemma stuck_trans: "absorbs x y \<Longrightarrow> stuck y z \<Longrightarrow> stuck x z"
  unfolding stuck_def using absorbs_trans by blast

fun notify_rel :: "auth_cache \<Rightarrow> watch_heap \<Rightarrow> (unit, watch_heap sys) run \<Rightarrow> bool" where
  "notify_rel ac h (Done u s) = (fst s = ac \<and> heap_rel absorbs h (snd s))"
| "notify_rel ac h (Blocked s) = (fst s = ac \<and> heap_rel stuck h (snd s))"

context watchable_cache
begin

lemma push_rel:
  assumes "fmlookup heap w = Some cw" "event_ok (knownResources cw) e" "visible_event cw e" "watcherLocked ac"
  shows "notify_rel ac heap
    (push_event wc w e err (cw\<lparr>knownResources := apply_event e (knownResources cw)\<rparr>) (ac, heap))"
proof (cases "length (cacheIncoming cw) < cacheIncoming_cap")
  case True
  have "absorbs cw (cw\<lparr>knownResources := apply_event e (knownResources cw),
                   cacheIncoming := cacheIncoming cw @ [e]\<rparr>)"
    using absorb_event [OF absorb_none True assms(2,3)] .
  with True assms(1) show ?thesis
    by (simp add: push_event_def heap_rel_upd absorb_none)
next
  case False
  have "stuck cw (cw\<lparr>knownResources := apply_event e (knownResources cw)\<rparr>)"
    unfolding stuck_def using absorb_none by blast
  with False assms show ?thesis
    by (simp add: push_full heap_rel_upd stuck_refl)
qed

lemma gmc_rel:
  assumes "watcherLocked ac"
  shows "notify_rel ac heap (GroupMembershipChanged wc v n us gs (ac, heap))"
proof (cases "fmlookup heap v")
  case None
  then show ?thesis
    by (simp add: GroupMembershipChanged_def heap_rel_refl absorb_none)
next
  case (Some cw)
  let ?del = "\<lparr>ev_Type = Deleted, ev_Object = Item (wc_ConvertResource wc n)\<rparr>"
  have del: "apply_event ?del (knownResources cw) = fmdrop n (knownResources cw)"
    "fmlookup (knownResources cw) n \<noteq> None \<Longrightarrow> event_ok (knownResources cw) ?del"
    "''*'' |\<in>| visibleResources cw \<or> n |\<in>| visibleResources cw \<Longrightarrow> visible_event cw ?del"
    by (simp_all add: convert_name visible_event_def)
  have refl: "notify_rel ac heap (Done () (ac, heap))"
    by (simp add: heap_rel_refl absorb_none)
  have push: "notify_rel ac heap (push_event wc v \<lparr>ev_Type = ty, ev_Object = Item obj\<rparr> err
      (cw\<lparr>knownResources := fmupd n (GetResourceVersion obj) (knownResources cw)\<rparr>) (ac, heap))"
    if "wc_Get wc n = Inr obj" "fmlookup (knownResources cw) n \<noteq> Some (GetResourceVersion obj)"
      and "ty = (if fmlookup (knownResources cw) n \<noteq> None then Modified else Added)"
      and "''*'' |\<in>| visibleResources cw \<or> n |\<in>| visibleResources cw" for obj ty err
  proof -
    let ?e = "\<lparr>ev_Type = ty, ev_Object = Item obj\<rparr>"
    have "apply_event ?e (knownResources cw) = fmupd n (GetResourceVersion obj) (knownResources cw)"
      "event_ok (knownResources cw) ?e" "visible_event cw ?e"
      using get_name [OF that(1)] that(2-4) by (auto simp: visible_event_def)
    then show ?thesis using push_rel [OF Some _ _ assms] by metis
  qed
  note pd = push_rel [OF Some del(2,3) assms, unfolded del(1)]
  show ?thesis
    using refl pd
    by (auto simp: GroupMembershipChanged_def Some Let_def push split: sum.split)
qed

lemma for_each_gmc_rel:
  "watcherLocked ac \<Longrightarrow> notify_rel ac heap (for_each (\<lambda>v. GroupMembershipChanged wc v n us gs) vs (ac, heap))"
proof (induction vs arbitrary: heap)
  case Nil
  then show ?case by (simp add: heap_rel_refl absorb_none)
next
  case (Cons v vs)
  have step: "notify_rel ac heap (GroupMembershipChanged wc v n us gs (ac, heap))"
    by (rule gmc_rel [OF Cons.prems])
  show ?case
  proof (cases "GroupMembershipChanged wc v n us gs (ac, heap)")
    case (Blocked s)
    with step show ?thesis by simp
  next
    case (Done u s)
    with step obtain h1 where s: "s = (ac, h1)" and h1: "heap_rel absorbs heap h1"
      by (cases s) auto
    have rest: "notify_rel ac h1 (for_each (\<lambda>v. GroupMembershipChanged wc v n us gs) vs (ac, h1))"
      by (rule Cons.IH [OF Cons.prems])
    have "notify_rel ac heap (for_each (\<lambda>v. GroupMembershipChanged wc v n us gs) vs (ac, h1))"
    proof (cases "for_each (\<lambda>v. GroupMembershipChanged wc v n us gs) vs (ac, h1)")
      case (Done u' s')
      with rest h1 show ?thesis
        by (auto intro: heap_rel_absorbs_trans absorbs_trans)
    next
      case (Blocked s')
      with rest h1 show ?thesis
        by (auto intro: heap_rel_absorbs_trans stuck_trans)
    qed
    with Done s show ?thesis by simp
  qed
qed

lemma notify_Done_rel:
  assumes "notifyWatchers (GroupMembershipChanged wc) n us gs (ac, heap) = Done () s'"
  shows "\<not> watcherLocked ac \<and> fst s' = ac \<and> heap_rel absorbs heap (snd s')"
proof -
  have unlocked: "\<not> watcherLocked ac"
    using assms by (auto simp: notifyWatchers_def with_lock_def)
  with assms for_each_gmc_rel [of "ac\<lparr>watcherLocked := True\<rparr>" heap n us gs "watchers ac"]
  show ?thesis
    by (cases "for_each (\<lambda>v. GroupMembershipChanged wc v n us gs) (watchers ac) (ac\<lparr>watcherLocked := True\<rparr>, heap)")
      (auto simp: notifyWatchers_def with_lock_def split: prod.splits)
qed

lemma notify_Blocked_rel:
  assumes "notifyWatchers (GroupMembershipChanged wc) n us gs (ac, heap) = Blocked s'"
  shows "watcherLocked ac \<and> s' = (ac, heap) \<or>
    \<not> watcherLocked ac \<and> fst s' = ac\<lparr>watcherLocked := True\<rparr> \<and> heap_rel stuck heap (snd s')"
proof (cases "watcherLocked ac")
  case True
  with assms show ?thesis by (simp add: notifyWatchers_def with_lock_def)
next
  case False
  with assms for_each_gmc_rel [of "ac\<lparr>watcherLocked := True\<rparr>" heap n us gs "watchers ac"]
  show ?thesis
    by (cases "for_each (\<lambda>v. GroupMembershipChanged wc v n us gs) (watchers ac) (ac\<lparr>watcherLocked := True\<rparr>, heap)")
      (auto simp: notifyWatchers_def with_lock_def split: prod.splits)
qed

end

section \<open>The invariant of one watch\<close>

text \<open>What the goroutine still holds back: the event in hand, the initial resources not yet sent.\<close>

fun in_hand :: "pc \<Rightarrow> watch_event list" where
  "in_hand (EmitEvent ev) = [ev]"
| "in_hand _ = []"

fun initial_left :: "pc \<Rightarrow> watch \<Rightarrow> watch_event list" where
  "initial_left (AtInit i) cw = map initial_event (drop i (initialResources cw))"
| "initial_left (EmitInit i) cw = map initial_event (drop i (initialResources cw))"
| "initial_left _ cw = []"

definition produced :: "goroutine \<Rightarrow> watch \<Rightarrow> watch_event list" where
  "produced g cw = g_out g @ in_hand (g_pc g) @ initial_left (g_pc g) cw @ cacheIncoming cw"

fun pc_ok :: "pc \<Rightarrow> watch \<Rightarrow> bool" where
  "pc_ok (EmitInit i) cw = (i < length (initialResources cw))"
| "pc_ok (EmitError ev) cw = False"
| "pc_ok Removing cw = userStop cw"
| "pc_ok Closing cw = userStop cw"
| "pc_ok Returned cw = userStop cw"
| "pc_ok _ cw = True"

definition registration :: "watcher_id \<Rightarrow> pc \<Rightarrow> watcher_id list" where
  "registration w p = (if p = Closing \<or> p = Returned then [] else [w])"

definition local_inv ::
  "watcher_id \<Rightarrow> (string, string) fmap \<Rightarrow> watch \<Rightarrow> auth_cache \<Rightarrow> watch \<Rightarrow> goroutine \<Rightarrow> bool" where
  "local_inv w base cw0 ac cw g \<longleftrightarrow>
     w_user cw = w_user cw0 \<and> visibleResources cw = visibleResources cw0
     \<and> initialResources cw = initialResources cw0
     \<and> cacheError cw = [] \<and> length (cacheIncoming cw) \<le> cacheIncoming_cap
     \<and> (\<forall>e \<in> set (g_out g @ in_hand (g_pc g) @ cacheIncoming cw).
          visible_event cw0 e \<or> e \<in> set (map initial_event (initialResources cw0)))
     \<and> pc_ok (g_pc g) cw \<and> (g_closed g \<longleftrightarrow> g_pc g = Returned)
     \<and> filter (\<lambda>v. v = w) (watchers ac) = registration w (g_pc g)
     \<and> (\<not> userStop cw \<longrightarrow> stream_ok base (produced g cw))
     \<and> (\<not> userStop cw \<and> \<not> watcherLocked ac \<longrightarrow> replica base (produced g cw) = knownResources cw)"

definition watch_inv :: "watcher_id \<Rightarrow> (string, string) fmap \<Rightarrow> watch \<Rightarrow> watch_sys \<Rightarrow> bool" where
  "watch_inv w base cw0 x \<longleftrightarrow>
     (\<exists>cw. fmlookup (snd (fst x)) w = Some cw \<and> local_inv w base cw0 (fst (fst x)) cw (snd x))"

lemma local_inv_absorbs:
  assumes "local_inv w base cw0 ac cw g" "absorbs cw cw'" "\<not> watcherLocked ac"
  shows "local_inv w base cw0 ac cw' g"
proof -
  let ?pre = "g_out g @ in_hand (g_pc g) @ initial_left (g_pc g) cw"
  have same: "initial_left (g_pc g) cw' = initial_left (g_pc g) cw" "pc_ok (g_pc g) cw' = pc_ok (g_pc g) cw"
    using absorbs_frame [OF assms(2)] by (cases "g_pc g"; simp)+
  have prod: "produced g cw = ?pre @ cacheIncoming cw" "produced g cw' = ?pre @ cacheIncoming cw'"
    using same by (simp_all add: produced_def)
  have seen: "\<forall>e \<in> set (cacheIncoming cw'). visible_event cw0 e \<or> e \<in> set (map initial_event (initialResources cw0))"
    using assms(1) absorbs_visible [OF assms(2)] absorbs_frame [OF assms(2)]
    by (auto simp: local_inv_def visible_event_def)
  have "replica base (produced g cw') = knownResources cw'"
    "stream_ok base (produced g cw')" if "\<not> userStop cw'"
    using that assms absorbs_frame [OF assms(2)] absorbs_replica [OF assms(2)] absorbs_stream [OF assms(2)]
    unfolding prod local_inv_def by blast+
  then show ?thesis
    using assms(1) same absorbs_frame [OF assms(2)] absorbs_cap [OF assms(2)] seen
    by (simp add: local_inv_def ball_Un)
qed

lemma local_inv_stuck:
  assumes "local_inv w base cw0 ac cw g" "stuck cw cw'" "\<not> watcherLocked ac"
  shows "local_inv w base cw0 (ac\<lparr>watcherLocked := True\<rparr>) cw' g"
proof -
  obtain c m where c: "absorbs cw c" "cw' = c\<lparr>knownResources := m\<rparr>"
    using assms(2) unfolding stuck_def by blast
  have "initial_left (g_pc g) (c\<lparr>knownResources := m\<rparr>) = initial_left (g_pc g) c"
    "pc_ok (g_pc g) (c\<lparr>knownResources := m\<rparr>) = pc_ok (g_pc g) c"
    by (cases "g_pc g"; simp)+
  with local_inv_absorbs [OF assms(1) c(1) assms(3)] show ?thesis
    by (simp add: local_inv_def c(2) produced_def)
qed

text \<open>Notifications, whether they return or not, and the stop of the client keep the invariant.\<close>

lemma watch_inv_notify:
  assumes "watchable_cache wc" "notifyWatchers (GroupMembershipChanged wc) n us gs s = Done () s'"
    and "watch_inv w base cw0 (s, g)"
  shows "watch_inv w base cw0 (s', g)"
proof -
  obtain ac heap where s: "s = (ac, heap)" by (cases s)
  have rel: "\<not> watcherLocked ac" "fst s' = ac" "heap_rel absorbs heap (snd s')"
    using watchable_cache.notify_Done_rel [OF assms(1)] assms(2) s by blast+
  from assms(3) obtain cw where "fmlookup heap w = Some cw" "local_inv w base cw0 ac cw g"
    by (auto simp: watch_inv_def s)
  with heap_rel_lookup [OF rel(3)] local_inv_absorbs [OF _ _ rel(1)] rel(2)
  show ?thesis unfolding watch_inv_def fst_conv snd_conv by blast
qed

lemma watch_inv_notify_stuck:
  assumes "watchable_cache wc" "notifyWatchers (GroupMembershipChanged wc) n us gs s = Blocked s'"
    and "watch_inv w base cw0 (s, g)"
  shows "watch_inv w base cw0 (s', g)"
proof -
  obtain ac heap where s: "s = (ac, heap)" by (cases s)
  from assms(3) obtain cw where cw: "fmlookup heap w = Some cw" "local_inv w base cw0 ac cw g"
    by (auto simp: watch_inv_def s)
  from watchable_cache.notify_Blocked_rel [OF assms(1)] assms(2) s
  consider "s' = (ac, heap)" | "\<not> watcherLocked ac" "fst s' = ac\<lparr>watcherLocked := True\<rparr>"
      "heap_rel stuck heap (snd s')" by blast
  then show ?thesis
  proof cases
    case 1
    with assms(3) s show ?thesis by simp
  next
    case 2
    from heap_rel_lookup [OF 2(3) cw(1)] local_inv_stuck [OF cw(2) _ 2(1)] 2(2)
    show ?thesis unfolding watch_inv_def fst_conv snd_conv by metis
  qed
qed

lemma watch_inv_stop:
  assumes "watch_inv w base cw0 ((ac, heap), g)"
  shows "watch_inv w base cw0 ((ac, Stop w heap), g)"
proof -
  obtain cw where cw: "fmlookup heap w = Some cw" "local_inv w base cw0 ac cw g"
    using assms by (auto simp: watch_inv_def)
  have "pc_ok (g_pc g) (cw\<lparr>userStop := True\<rparr>)"
    using cw(2) by (cases "g_pc g") (auto simp: local_inv_def)
  then have "local_inv w base cw0 ac (cw\<lparr>userStop := True\<rparr>) g"
    using cw(2) by (simp add: local_inv_def)
  with cw show ?thesis by (simp add: watch_inv_def Stop_def)
qed

lemma watch_inv_step:
  assumes "watch_step w x y" "watch_inv w base cw0 x"
  shows "watch_inv w base cw0 y"
  using assms
proof (induction rule: watch_step.induct)
  case (notify wc n us gs s s' g)
  then show ?case by (rule watch_inv_notify)
next
  case (notify_stuck wc n us gs s s' g)
  then show ?case by (rule watch_inv_notify_stuck)
next
  case (remove g s s')
  then show ?case
    by (cases s)
      (auto simp: watch_inv_def local_inv_def RemoveWatcher_eq produced_def registration_def
        filter_remove1 split: if_splits)
next
  case (emit_init heap cw g i ac)
  then show ?case
    by (auto simp: watch_inv_def local_inv_def produced_def registration_def
        simp flip: Cons_nth_drop_Suc)
next
  case (stop ac heap g)
  then show ?case by (rule watch_inv_stop)
next
  case (other heap' heap ac' ac g)
  have "local_inv w base cw0 ac' cw g" if "local_inv w base cw0 ac cw g" for cw
    using that unfolding local_inv_def other(2,3) .
  with other(1,4) show ?case by (auto simp: watch_inv_def)
qed (auto simp: watch_inv_def local_inv_def produced_def registration_def)

lemma watch_inv_reach:
  "watch_reach w s0 x \<Longrightarrow> watch_inv w base cw0 (s0, watch_start) \<Longrightarrow> watch_inv w base cw0 x"
  by (induction rule: watch_reach.induct) (auto intro: watch_inv_step)

section \<open>A watch that has just been registered\<close>

definition fresh_watch :: "(string, string) fmap \<Rightarrow> watch \<Rightarrow> bool" where
  "fresh_watch base cw \<longleftrightarrow>
     cacheIncoming cw = [] \<and> cacheError cw = [] \<and> \<not> userStop cw
     \<and> stream_ok base (map initial_event (initialResources cw))
     \<and> replica base (map initial_event (initialResources cw)) = knownResources cw"

definition registered :: "watcher_id \<Rightarrow> watch \<Rightarrow> watch_heap sys \<Rightarrow> bool" where
  "registered w cw s \<longleftrightarrow> fmlookup (snd s) w = Some cw \<and> filter (\<lambda>v. v = w) (watchers (fst s)) = [w]"

lemma watch_inv_start:
  "registered w cw s0 \<Longrightarrow> fresh_watch base cw \<Longrightarrow> watch_inv w base cw (s0, watch_start)"
  by (simp add: registered_def fresh_watch_def watch_inv_def local_inv_def watch_start_def
      produced_def registration_def)

lemma replica_known_loop: "replica base (map initial_event objs) = known_loop objs base"
  by (induction objs arbitrary: base) (auto simp: replica_def initial_event_def)

lemma initial_event_simps:
  "event_ok m (initial_event obj) \<longleftrightarrow> fmlookup m (GetName obj) = None"
  "apply_event (initial_event obj) m = fmupd (GetName obj) (GetResourceVersion obj) m"
  by (simp_all add: initial_event_def)

lemma initial_stream_ok:
  "distinct (map GetName objs) \<Longrightarrow> \<forall>obj\<in>set objs. fmlookup base (GetName obj) = None
     \<Longrightarrow> stream_ok base (map initial_event objs)"
proof (induction objs arbitrary: base)
  case (Cons obj objs)
  have "\<forall>o'\<in>set objs. fmlookup (fmupd (GetName obj) (GetResourceVersion obj) base) (GetName o') = None"
    using Cons.prems by (auto simp: image_iff)
  then have "stream_ok (fmupd (GetName obj) (GetResourceVersion obj) base) (map initial_event objs)"
    using Cons.prems by (intro Cons.IH) simp_all
  with Cons.prems show ?case by (simp add: initial_event_simps)
qed simp

text \<open>
  A new watch starts from what its user can list. With the initial resources requested, a
  client starts from nothing; otherwise from its own listing.
\<close>

definition watch_base :: "watch \<Rightarrow> (string, string) fmap" where
  "watch_base cw = (if initialResources cw = [] then knownResources cw else fmempty)"

lemma NewCacheWatcher_fields [simp]:
  "w_user (NewCacheWatcher user visible wc all) = user"
  "visibleResources (NewCacheWatcher user visible wc all) = visible"
  "cacheIncoming (NewCacheWatcher user visible wc all) = []"
  "cacheError (NewCacheWatcher user visible wc all) = []"
  "userStop (NewCacheWatcher user visible wc all) = False"
  by (simp_all add: NewCacheWatcher_def Let_def)

lemma NewCacheWatcher_fresh:
  assumes "\<And>l objs. wc_ListObjects wc user = Inr l \<Longrightarrow> ExtractList l = Inr objs \<Longrightarrow> distinct (map GetName objs)"
  shows "fresh_watch (watch_base (NewCacheWatcher user visible wc all)) (NewCacheWatcher user visible wc all)"
proof -
  define objs where "objs = (case wc_ListObjects wc user of Inl _ \<Rightarrow> []
      | Inr l \<Rightarrow> (case ExtractList l of Inl _ \<Rightarrow> [] | Inr objs \<Rightarrow> objs))"
  have "distinct (map GetName objs)"
    using assms by (auto simp: objs_def split: sum.split)
  then show ?thesis
    by (auto simp: fresh_watch_def watch_base_def NewCacheWatcher_def Let_def objs_def [symmetric]
        replica_known_loop initial_stream_ok)
qed

end
