(* ===== verification/Scopes.thy ===== *)
theory Scopes
  imports Rbac_Allow
begin

text \<open>
  \<^verbatim>\<open>pkg/apis/helpers\<close>: which namespaces the scopes of a token let its user see
  (\<^verbatim>\<open>scope.go\<close>, with the scope parser of \<^verbatim>\<open>scopemetadata\<close>), and the selectors of list
  options (\<^verbatim>\<open>matcher.go\<close>). Cluster role scopes have the form
  \<^verbatim>\<open>role:<name>:<namespace>\<close>, with a trailing \<^verbatim>\<open>:!\<close> when they include escalating resources.
\<close>

section \<open>Scope syntax\<close>

definition ScopesKey :: string where
  "ScopesKey = ''scopes.authorization.openshift.io''"

definition UserIndicator :: string where "UserIndicator = ''user:''"
definition ClusterRoleIndicator :: string where "ClusterRoleIndicator = ''role:''"

definition UserInfo :: string where "UserInfo = UserIndicator @ ''info''"
definition UserAccessCheck :: string where "UserAccessCheck = UserIndicator @ ''check-access''"
definition UserListScopedProjects :: string where
  "UserListScopedProjects = UserIndicator @ ''list-scoped-projects''"
definition UserListAllProjects :: string where
  "UserListAllProjects = UserIndicator @ ''list-projects''"
definition UserFull :: string where "UserFull = UserIndicator @ ''full''"

lemmas user_scopes =
  UserInfo_def UserAccessCheck_def UserListScopedProjects_def UserListAllProjects_def
  UserFull_def UserIndicator_def

definition UserEvaluatorHandles :: "string \<Rightarrow> bool" where
  "UserEvaluatorHandles scope \<longleftrightarrow>
     scope = UserFull \<or> scope = UserInfo \<or> scope = UserAccessCheck
     \<or> scope = UserListScopedProjects \<or> scope = UserListAllProjects"

definition ClusterRoleEvaluatorHandles :: "string \<Rightarrow> bool" where
  "ClusterRoleEvaluatorHandles scope = hasPrefix scope ClusterRoleIndicator"

definition bad_format :: "string \<Rightarrow> go_error" where
  "bad_format scope = ErrorText (''bad format for scope '' @ scope)"

text \<open>Result: role name, namespace, escalating.\<close>

definition parseClusterRoleScope :: "string \<Rightarrow> (string \<times> string \<times> bool) result" where
  "parseClusterRoleScope scope =
     (if \<not> hasPrefix scope ClusterRoleIndicator then Inl (bad_format scope)
      else
        let (escalating, scope) =
              (if hasSuffix scope '':!''
               then (True, take (nat (lastIndex scope (CHR '':''))) scope)
               else (False, scope));
            tokens = splitN2 scope (CHR '':'')
        in if length tokens \<noteq> 2 then Inl (bad_format scope)
           else
             let token = tokens ! 1;
                 lastColonIndex = lastIndex token (CHR '':'')
             in if lastColonIndex \<le> 0 \<or> lastColonIndex = int (length token) - 1
                then Inl (bad_format scope)
                else Inr (take (nat lastColonIndex) token, drop (nat (lastColonIndex + 1)) token,
                          escalating))"

definition ClusterRoleEvaluatorParseScope :: "string \<Rightarrow> (string \<times> string \<times> bool) result" where
  "ClusterRoleEvaluatorParseScope scope =
     (if \<not> ClusterRoleEvaluatorHandles scope then Inl (bad_format scope)
      else parseClusterRoleScope scope)"

section \<open>Filtering the rules of a scope's role\<close>

record group_resource =
  gr_Group :: string
  gr_Resource :: string

definition escalatingScopeResources :: "group_resource list" where
  "escalatingScopeResources = map (\<lambda>(g, r). \<lparr>gr_Group = g, gr_Resource = r\<rparr>)
     [('''', ''secrets''),
      (''image.openshift.io'', ''imagestreams/secrets''),
      (''oauth.openshift.io'', ''oauthauthorizetokens''),
      (''oauth.openshift.io'', ''oauthaccesstokens''),
      (''authorization.openshift.io'', ''roles''),
      (''authorization.openshift.io'', ''rolebindings''),
      (''authorization.openshift.io'', ''clusterroles''),
      (''authorization.openshift.io'', ''clusterrolebindings''),
      (''network.openshift.io'', ''service/externalips''),
      ('''', ''imagestreams/secrets''),
      ('''', ''oauthauthorizetokens''),
      ('''', ''oauthaccesstokens''),
      ('''', ''roles''),
      ('''', ''rolebindings''),
      ('''', ''clusterroles''),
      ('''', ''clusterrolebindings'')]"

fun has :: "string list \<Rightarrow> string \<Rightarrow> bool" where
  "has [] value = False"
| "has (element # rest) value = (if value = element then True else has rest value)"

text \<open>
  \<open>remove\<close> filters a slice in place: it re-slices the array to length 0 and appends the
  elements to keep, so the writes go to the array the loop is still reading. \<open>arr\<close> is the
  backing array, \<open>i\<close> the read index of the loop, \<open>k\<close> the length of the new slice.
\<close>

function remove_loop :: "string list \<Rightarrow> nat \<Rightarrow> nat \<Rightarrow> string \<Rightarrow> string list \<times> nat" where
  "remove_loop arr i k item =
     (if i < length arr then
        let element = arr ! i
        in if element \<noteq> item then remove_loop (arr[k := element]) (Suc i) (Suc k) item
           else remove_loop arr (Suc i) k item
      else (arr, k))"
  by pat_completeness auto
termination
  by (relation "measure (\<lambda>(arr, i, k, item). length arr - i)") auto

declare remove_loop.simps [simp del]

definition remove :: "string list \<Rightarrow> string \<Rightarrow> string list" where
  "remove array item = (let (arr, k) = remove_loop array 0 0 item in take k arr)"

text \<open>
  \<open>removeEscalatingResources\<close> copies the rule on the first escalating resource it meets; the
  tests always read the rule passed in.
\<close>

fun escalating_loop :: "policy_rule \<Rightarrow> policy_rule option \<Rightarrow> group_resource list \<Rightarrow> policy_rule option" where
  "escalating_loop in_rule ruleCopy [] = ruleCopy"
| "escalating_loop in_rule ruleCopy (res # rest) =
     (if \<not> (has (APIGroups in_rule) (gr_Group res) \<and> has (Resources in_rule) (gr_Resource res))
      then escalating_loop in_rule ruleCopy rest
      else
        let copy = (case ruleCopy of None \<Rightarrow> in_rule | Some c \<Rightarrow> c)
        in escalating_loop in_rule
             (Some (copy\<lparr>Resources := remove (Resources copy) (gr_Resource res)\<rparr>)) rest)"

definition removeEscalatingResources :: "policy_rule \<Rightarrow> policy_rule" where
  "removeEscalatingResources in_rule =
     (case escalating_loop in_rule None escalatingScopeResources of
        None \<Rightarrow> in_rule | Some ruleCopy \<Rightarrow> ruleCopy)"

fun rules_loop :: "bool \<Rightarrow> policy_rule list \<Rightarrow> policy_rule list \<Rightarrow> policy_rule list" where
  "rules_loop escalating [] rules = rules"
| "rules_loop escalating (rule # rest) rules =
     (if escalating then rules_loop escalating rest (rules @ [rule])
      else if has (Verbs rule) VerbAll \<or> has (Resources rule) ResourceAll
              \<or> has (APIGroups rule) APIGroupAll
        then rules_loop escalating rest rules
      else rules_loop escalating rest (rules @ [removeEscalatingResources rule]))"

definition resolveRules :: "string \<Rightarrow> cluster_role lister \<Rightarrow> policy_rule list result" where
  "resolveRules scope clusterRoleGetter =
     (case ClusterRoleEvaluatorParseScope scope of
        Inl err \<Rightarrow> Inl err
      | Inr (roleName, _, escalating) \<Rightarrow>
          (case lister_Get clusterRoleGetter roleName of
             Inl err \<Rightarrow> if IsNotFound err then Inr [] else Inl err
           | Inr role \<Rightarrow> Inr (rules_loop escalating (role_Rules role) [])))"

section \<open>Evaluators\<close>

definition userEvaluator_ResolveGettableNamespaces ::
  "string \<Rightarrow> cluster_role lister \<Rightarrow> string list result" where
  "userEvaluator_ResolveGettableNamespaces scope clusterRoleGetter =
     (if scope = UserFull \<or> scope = UserListAllProjects then Inr [''*''] else Inr [])"

definition get_namespaces_attributes :: attributes where
  "get_namespaces_attributes =
     \<lparr>attr_Verb = ''get'', attr_Namespace = [], attr_APIGroup = [], attr_Resource = ''namespaces'',
      attr_Subresource = [], attr_Name = [], attr_ResourceRequest = True, attr_Path = []\<rparr>"

definition clusterRoleEvaluator_ResolveGettableNamespaces ::
  "string \<Rightarrow> cluster_role lister \<Rightarrow> string list result" where
  "clusterRoleEvaluator_ResolveGettableNamespaces scope clusterRoleGetter =
     (case ClusterRoleEvaluatorParseScope scope of
        Inl err \<Rightarrow> Inl err
      | Inr (_, scopeNamespace, _) \<Rightarrow>
          (case resolveRules scope clusterRoleGetter of
             Inl err \<Rightarrow> Inl err
           | Inr rules \<Rightarrow>
               if RulesAllow get_namespaces_attributes rules then Inr [scopeNamespace] else Inr []))"

record scope_evaluator =
  Handles :: "string \<Rightarrow> bool"
  ResolveGettableNamespaces :: "string \<Rightarrow> cluster_role lister \<Rightarrow> string list result"

definition ScopeEvaluators :: "scope_evaluator list" where
  "ScopeEvaluators =
     [\<lparr>Handles = UserEvaluatorHandles,
       ResolveGettableNamespaces = userEvaluator_ResolveGettableNamespaces\<rparr>,
      \<lparr>Handles = ClusterRoleEvaluatorHandles,
       ResolveGettableNamespaces = clusterRoleEvaluator_ResolveGettableNamespaces\<rparr>]"

text \<open>The inner loop over the evaluators: found, visible namespaces, errors.\<close>

fun evaluators_loop ::
  "string \<Rightarrow> cluster_role lister \<Rightarrow> scope_evaluator list \<Rightarrow> bool \<times> string fset \<times> go_error list
    \<Rightarrow> bool \<times> string fset \<times> go_error list" where
  "evaluators_loop scope getter [] acc = acc"
| "evaluators_loop scope getter (evaluator # rest) (found, visible, errors) =
     (if Handles evaluator scope then
        (case ResolveGettableNamespaces evaluator scope getter of
           Inl err \<Rightarrow> evaluators_loop scope getter rest (True, visible, errors @ [err])
         | Inr allowedNamespaces \<Rightarrow> (True, visible |\<union>| fset_of_list allowedNamespaces, errors))
      else evaluators_loop scope getter rest (found, visible, errors))"

fun scopes_loop ::
  "string list \<Rightarrow> cluster_role lister \<Rightarrow> bool \<Rightarrow> string fset \<times> go_error list
    \<Rightarrow> string fset \<times> go_error list" where
  "scopes_loop [] getter ignoreUnhandledScopes acc = acc"
| "scopes_loop (scope # rest) getter ignoreUnhandledScopes (visible, errors) =
     (let (found, visible, errors) =
            evaluators_loop scope getter ScopeEvaluators (False, visible, errors);
          errors = (if \<not> found \<and> \<not> ignoreUnhandledScopes
                    then errors @ [ErrorText (''no scope evaluator found for ''
                                     @ [CHR 0x22] @ scope @ [CHR 0x22])]
                    else errors)
      in scopes_loop rest getter ignoreUnhandledScopes (visible, errors))"

definition ScopesToVisibleNamespaces ::
  "string list \<Rightarrow> cluster_role lister \<Rightarrow> bool \<Rightarrow> string fset \<times> go_error option" where
  "ScopesToVisibleNamespaces scopes clusterRoleGetter ignoreUnhandledScopes =
     (if length scopes = 0 then ({|''*''|}, None)
      else
        let (visible, errors) = scopes_loop scopes clusterRoleGetter ignoreUnhandledScopes ({||}, [])
        in (visible, NewAggregate errors))"

section \<open>List options\<close>

text \<open>\<^verbatim>\<open>metainternal.ListOptions\<close>: nil selectors are \<open>None\<close>.\<close>

record list_options =
  opt_LabelSelector :: "selector option"
  opt_FieldSelector :: "selector option"
  opt_ResourceVersion :: string

definition InternalListOptionsToSelectors :: "list_options option \<Rightarrow> selector \<times> selector" where
  "InternalListOptionsToSelectors options =
     (let label = (case options of None \<Rightarrow> Everything
                   | Some opts \<Rightarrow> (case opt_LabelSelector opts of None \<Rightarrow> Everything | Some l \<Rightarrow> l));
          field = (case options of None \<Rightarrow> Everything
                   | Some opts \<Rightarrow> (case opt_FieldSelector opts of None \<Rightarrow> Everything | Some f \<Rightarrow> f))
      in (label, field))"

end
