(* ===== verification/Scope_Facts.thy ===== *)
theory Scope_Facts
  imports Scopes
begin

text \<open>
  Lemmas on scopes: the parser accepts exactly the printed scopes, the in-place filter
  behaves like a filter, and a scope that is not escalating never yields a rule with a
  wildcard or a listed escalating resource.
\<close>

section \<open>The in-place filter\<close>

lemma remove_loop_filter:
  assumes "k \<le> i" "i \<le> length arr" "remove_loop arr i k item = (arr', k')"
  shows "take k' arr' = take k arr @ filter (\<lambda>x. x \<noteq> item) (drop i arr)"
  using assms
proof (induction arr i k item rule: remove_loop.induct)
  case (1 arr i k item)
  show ?case
  proof (cases "i < length arr")
    case True
    show ?thesis
    proof (cases "arr ! i = item")
      case True
      with \<open>i < length arr\<close> "1.prems" have "remove_loop arr (Suc i) k item = (arr', k')"
        by (subst (asm) remove_loop.simps) simp
      with "1.IH"(2) True \<open>i < length arr\<close> "1.prems"
      have "take k' arr' = take k arr @ filter (\<lambda>x. x \<noteq> item) (drop (Suc i) arr)" by simp
      with True \<open>i < length arr\<close> show ?thesis by (simp add: Cons_nth_drop_Suc [symmetric])
    next
      case False
      with \<open>i < length arr\<close> "1.prems"
      have "remove_loop (arr[k := arr ! i]) (Suc i) (Suc k) item = (arr', k')"
        by (subst (asm) remove_loop.simps) (simp add: Let_def)
      with "1.IH"(1) False \<open>i < length arr\<close> "1.prems"
      have "take k' arr' = take (Suc k) (arr[k := arr ! i])
          @ filter (\<lambda>x. x \<noteq> item) (drop (Suc i) (arr[k := arr ! i]))" by simp
      moreover have "take (Suc k) (arr[k := arr ! i]) = take k arr @ [arr ! i]"
        using \<open>i < length arr\<close> "1.prems" by (simp add: take_Suc_conv_app_nth)
      moreover have "drop (Suc i) (arr[k := arr ! i]) = drop (Suc i) arr"
        using "1.prems" by simp
      ultimately show ?thesis
        using False \<open>i < length arr\<close> by (simp add: Cons_nth_drop_Suc [symmetric])
    qed
  next
    case False
    with "1.prems" show ?thesis by (subst (asm) remove_loop.simps) simp
  qed
qed

lemma remove_eq_filter: "remove array item = filter (\<lambda>x. x \<noteq> item) array"
  using remove_loop_filter [of 0 0 array item]
  by (cases "remove_loop array 0 0 item") (auto simp: remove_def)

lemma has_iff [simp]: "has xs v \<longleftrightarrow> v \<in> set xs"
  by (induction xs) auto

section \<open>Parsing and printing cluster role scopes\<close>

definition format_role_scope :: "string \<Rightarrow> string \<Rightarrow> bool \<Rightarrow> string" where
  "format_role_scope role namespace escalating =
     ''role:'' @ role @ '':'' @ namespace @ (if escalating then '':!'' else [])"

definition well_formed_scope :: "string \<Rightarrow> string \<Rightarrow> bool \<Rightarrow> bool" where
  "well_formed_scope role namespace escalating \<longleftrightarrow>
     role \<noteq> [] \<and> namespace \<noteq> [] \<and> CHR '':'' \<notin> set namespace
     \<and> (\<not> escalating \<longrightarrow> namespace \<noteq> ''!'')"

text \<open>The second half of the parser, after the escalation suffix is gone.\<close>

definition parse_body :: "string \<Rightarrow> string \<Rightarrow> bool \<Rightarrow> (string \<times> string \<times> bool) result" where
  "parse_body orig scope escalating =
     (let tokens = splitN2 scope (CHR '':'')
      in if length tokens \<noteq> 2 then Inl (bad_format scope)
         else
           let token = tokens ! 1; l = lastIndex token (CHR '':'')
           in if l \<le> 0 \<or> l = int (length token) - 1 then Inl (bad_format scope)
              else Inr (take (nat l) token, drop (nat (l + 1)) token, escalating))"

lemma role_split: "splitN2 (''role:'' @ t) (CHR '':'') = [''role'', t]"
  using splitN2_at [of "CHR '':''" "''role''" t] by simp

lemma parse_body_Inr_iff:
  "parse_body orig (''role:'' @ t) esc = Inr (r, n, e) \<longleftrightarrow>
     t = r @ '':'' @ n \<and> r \<noteq> [] \<and> n \<noteq> [] \<and> CHR '':'' \<notin> set n \<and> e = esc"
proof (cases "CHR '':'' \<in> set t")
  case False
  then show ?thesis unfolding parse_body_def role_split by (auto simp: go_strings Let_def)
next
  case True
  then obtain xs ys where t: "t = xs @ CHR '':'' # ys" "CHR '':'' \<notin> set ys"
      "lastIndex t (CHR '':'') = int (length xs)"
    by (rule lastIndex_decomp)
  have rhs: "t = r @ '':'' @ n \<and> CHR '':'' \<notin> set n \<longleftrightarrow> r = xs \<and> n = ys"
    using last_cut_unique [of "CHR '':''" ys n xs r] t(1,2) by auto
  have "nat (lastIndex t (CHR '':'') + 1) = Suc (length xs)"
    using t(3) by simp
  then have "parse_body orig (''role:'' @ t) esc =
      (if xs = [] \<or> ys = [] then Inl (bad_format (''role:'' @ t)) else Inr (xs, ys, esc))"
    unfolding parse_body_def role_split Let_def by (simp add: t(3)) (simp add: t(1))
  with rhs show ?thesis by (cases "xs = [] \<or> ys = []") auto
qed

lemma role_prefix_iff: "hasPrefix s ClusterRoleIndicator \<longleftrightarrow> (\<exists>t. s = ''role:'' @ t)"
  by (simp add: hasPrefix_iff ClusterRoleIndicator_def)

lemma parse_plain:
  "\<not> hasSuffix scope '':!'' \<Longrightarrow> hasPrefix scope ClusterRoleIndicator \<Longrightarrow>
     parseClusterRoleScope scope = parse_body scope scope False"
  by (simp add: parseClusterRoleScope_def parse_body_def)

lemma clip_suffix: "take (nat (lastIndex (u @ '':!'') (CHR '':''))) (u @ '':!'') = u"
  using lastIndex_at [of "CHR '':''" "''!''" u] by simp

lemma parse_escalating:
  "hasPrefix (u @ '':!'') ClusterRoleIndicator \<Longrightarrow>
     parseClusterRoleScope (u @ '':!'') = parse_body (u @ '':!'') u True"
  by (simp only: parseClusterRoleScope_def parse_body_def hasSuffix_append clip_suffix Let_def
      if_True if_False not_True_eq_False split: prod.split) simp

text \<open>Without the escalation mark, with it, and where the mark overlaps the indicator.\<close>

lemma parse_plain_iff:
  assumes "hasPrefix scope ClusterRoleIndicator" "\<not> hasSuffix scope '':!''"
  shows "parseClusterRoleScope scope = Inr (r, n, e) \<longleftrightarrow>
     well_formed_scope r n e \<and> scope = format_role_scope r n e"
proof -
  obtain t where t: "scope = ''role:'' @ t" using assms(1) by (auto simp: role_prefix_iff)
  have "parseClusterRoleScope scope = Inr (r, n, e) \<longleftrightarrow>
      t = r @ '':'' @ n \<and> r \<noteq> [] \<and> n \<noteq> [] \<and> CHR '':'' \<notin> set n \<and> e = False"
    unfolding parse_plain [OF assms(2,1)] unfolding t by (rule parse_body_Inr_iff)
  moreover have "n \<noteq> ''!''" if "t = r @ '':'' @ n"
  proof
    assume "n = ''!''"
    with that t have "scope = (''role:'' @ r) @ '':!''" by simp
    with assms(2) hasSuffix_append show False by metis
  qed
  moreover have "\<not> e" if "scope = format_role_scope r n e"
  proof
    assume e
    with that have "scope = (''role:'' @ r @ '':'' @ n) @ '':!''"
      by (simp add: format_role_scope_def)
    with assms(2) hasSuffix_append show False by metis
  qed
  ultimately show ?thesis
    by (auto simp: well_formed_scope_def format_role_scope_def t)
qed

lemma role_overlap:
  assumes eq: "''role:'' @ t = u @ '':!''" and "\<not> hasPrefix u ClusterRoleIndicator"
  shows "u = ''role''"
proof -
  have "length u < 5"
  proof (rule ccontr)
    assume "\<not> length u < 5"
    then have "take 5 (u @ '':!'') = take 5 u" by simp
    with eq [symmetric] have "take 5 u = ''role:''" by simp
    with \<open>\<not> length u < 5\<close> assms(2) show False
      by (simp add: hasPrefix_def ClusterRoleIndicator_def numeral_eq_Suc)
  qed
  moreover have "(''role:'' @ t) ! length u = CHR '':''"
    unfolding eq by simp
  moreover have "length u = 0 \<or> length u = 1 \<or> length u = 2 \<or> length u = 3 \<or> length u = 4"
    using \<open>length u < 5\<close> by arith
  ultimately have "length u = 4" by auto
  then have "take 4 (u @ '':!'') = u" by simp
  with eq [symmetric] show ?thesis by simp
qed

lemma parse_overlap_iff:
  assumes "hasPrefix (u @ '':!'') ClusterRoleIndicator" "u = ''role''"
  shows "parseClusterRoleScope (u @ '':!'') = Inr (r, n, e) \<longleftrightarrow>
     well_formed_scope r n e \<and> u @ '':!'' = format_role_scope r n e"
proof -
  have "parseClusterRoleScope (u @ '':!'') = Inl (bad_format ''role'')"
    using parse_escalating [OF assms(1)] assms(2) by (simp add: parse_body_def splitN2_def)
  moreover have "\<not> (well_formed_scope r n e \<and> u @ '':!'' = format_role_scope r n e)"
    using assms(2)
    by (auto simp: well_formed_scope_def format_role_scope_def Cons_eq_append_conv split: if_splits)
  ultimately show ?thesis by simp
qed

lemma parse_escalating_iff:
  assumes "hasPrefix (u @ '':!'') ClusterRoleIndicator" "hasPrefix u ClusterRoleIndicator"
  shows "parseClusterRoleScope (u @ '':!'') = Inr (r, n, e) \<longleftrightarrow>
     well_formed_scope r n e \<and> u @ '':!'' = format_role_scope r n e"
proof -
  obtain v where v: "u = ''role:'' @ v" using assms(2) by (auto simp: role_prefix_iff)
  have "parseClusterRoleScope (u @ '':!'') = Inr (r, n, e) \<longleftrightarrow>
      v = r @ '':'' @ n \<and> r \<noteq> [] \<and> n \<noteq> [] \<and> CHR '':'' \<notin> set n \<and> e = True"
    unfolding parse_escalating [OF assms(1)] unfolding v by (rule parse_body_Inr_iff)
  moreover have "e" if "well_formed_scope r n e" "u @ '':!'' = format_role_scope r n e"
  proof (rule ccontr)
    assume "\<not> e"
    with that have "(''role:'' @ r) @ CHR '':'' # n = u @ CHR '':'' # ''!''"
      by (simp add: format_role_scope_def)
    moreover have "CHR '':'' \<notin> set n"
      using that by (simp add: well_formed_scope_def)
    ultimately have "n = ''!''"
      using last_cut_unique [of "CHR '':''" n "''!''" "''role:'' @ r" u] by simp
    with that \<open>\<not> e\<close> show False by (simp add: well_formed_scope_def)
  qed
  ultimately show ?thesis
    using v by (auto simp: well_formed_scope_def format_role_scope_def)
qed

theorem parseClusterRoleScope_iff:
  "parseClusterRoleScope scope = Inr (r, n, e) \<longleftrightarrow>
     well_formed_scope r n e \<and> scope = format_role_scope r n e"
proof (cases "hasPrefix scope ClusterRoleIndicator")
  case False
  then show ?thesis
    by (auto simp: parseClusterRoleScope_def format_role_scope_def role_prefix_iff)
next
  case True
  show ?thesis
  proof (cases "hasSuffix scope '':!''")
    case False
    with True show ?thesis by (rule parse_plain_iff)
  next
    case suffix: True
    obtain t where t: "scope = ''role:'' @ t" using True by (auto simp: role_prefix_iff)
    obtain u where u: "scope = u @ '':!''" using suffix by (auto simp: hasSuffix_iff)
    show ?thesis
    proof (cases "hasPrefix u ClusterRoleIndicator")
      case False
      with t u have "u = ''role''" by (intro role_overlap [of t]) simp_all
      with parse_overlap_iff True show ?thesis unfolding u by blast
    next
      case prefix: True
      with parse_escalating_iff True show ?thesis unfolding u by blast
    qed
  qed
qed

lemma ClusterRoleEvaluatorParseScope_iff:
  "ClusterRoleEvaluatorParseScope scope = Inr (r, n, e) \<longleftrightarrow>
     well_formed_scope r n e \<and> scope = format_role_scope r n e"
proof -
  have "ClusterRoleEvaluatorHandles (format_role_scope r n e)"
    by (simp add: ClusterRoleEvaluatorHandles_def role_prefix_iff format_role_scope_def)
  then show ?thesis
    by (auto simp: ClusterRoleEvaluatorParseScope_def parseClusterRoleScope_iff)
qed

section \<open>Escalating resources\<close>

definition escalating_pair :: "string \<Rightarrow> string \<Rightarrow> bool" where
  "escalating_pair g r \<longleftrightarrow> \<lparr>gr_Group = g, gr_Resource = r\<rparr> \<in> set escalatingScopeResources"

definition names_pair :: "policy_rule \<Rightarrow> group_resource \<Rightarrow> bool" where
  "names_pair rule res \<longleftrightarrow> gr_Group res \<in> set (APIGroups rule) \<and> gr_Resource res \<in> set (Resources rule)"

text \<open>What the loop over the escalating resources leaves of a rule.\<close>

lemma escalating_loop_Resources:
  "set (Resources (case escalating_loop rule cp rs of None \<Rightarrow> rule | Some c \<Rightarrow> c)) =
     set (Resources (case cp of None \<Rightarrow> rule | Some c \<Rightarrow> c))
       - {gr_Resource res | res. res \<in> set rs \<and> names_pair rule res}"
proof (induction rule cp rs rule: escalating_loop.induct)
  case (1 rule cp)
  then show ?case by simp
next
  case (2 rule cp res rest)
  show ?case
  proof (cases "names_pair rule res")
    case True
    with 2 show ?thesis
      by (auto simp: names_pair_def remove_eq_filter Let_def)
  next
    case False
    with 2 show ?thesis by (auto simp: names_pair_def)
  qed
qed

lemma escalating_loop_frame:
  assumes "\<And>c. cp = Some c \<Longrightarrow> c\<lparr>Resources := Resources rule\<rparr> = rule"
    and "escalating_loop rule cp rs = Some c"
  shows "c\<lparr>Resources := Resources rule\<rparr> = rule"
  using assms
  by (induction rule cp rs rule: escalating_loop.induct)
    (auto simp: Let_def split: if_splits option.splits)

lemma removeEscalating_frame:
  "(removeEscalatingResources rule)\<lparr>Resources := Resources rule\<rparr> = rule"
  using escalating_loop_frame [of None rule escalatingScopeResources]
  by (auto simp: removeEscalatingResources_def split: option.splits)

lemma removeEscalating_fields [simp]:
  "Verbs (removeEscalatingResources rule) = Verbs rule"
  "APIGroups (removeEscalatingResources rule) = APIGroups rule"
  "ResourceNames (removeEscalatingResources rule) = ResourceNames rule"
  "NonResourceURLs (removeEscalatingResources rule) = NonResourceURLs rule"
  using removeEscalating_frame [of rule, symmetric]
  by (metis policy_rule.select_convs policy_rule.surjective policy_rule.update_convs(3))+

lemma removeEscalating_Resources:
  "set (Resources (removeEscalatingResources rule)) =
     set (Resources rule) - {gr_Resource res | res. res \<in> set escalatingScopeResources \<and> names_pair rule res}"
  using escalating_loop_Resources [of rule None escalatingScopeResources]
  by (simp add: removeEscalatingResources_def)

lemma removeEscalating_safe:
  "escalating_pair g r \<Longrightarrow> g \<in> set (APIGroups rule)
     \<Longrightarrow> r \<notin> set (Resources (removeEscalatingResources rule))"
  by (force simp: escalating_pair_def removeEscalating_Resources names_pair_def)

lemma removeEscalating_narrows:
  assumes "RuleAllows a (removeEscalatingResources rule)"
  shows "RuleAllows a rule"
proof -
  have "set (Resources (removeEscalatingResources rule)) \<subseteq> set (Resources rule)"
    by (auto simp: removeEscalating_Resources)
  with assms show ?thesis by (auto simp: RuleAllows_def rbac_iff Let_def split: if_splits)
qed

section \<open>The rules of a scope\<close>

definition wildcard_free :: "policy_rule \<Rightarrow> bool" where
  "wildcard_free rule \<longleftrightarrow>
     VerbAll \<notin> set (Verbs rule) \<and> ResourceAll \<notin> set (Resources rule)
     \<and> APIGroupAll \<notin> set (APIGroups rule)"

lemma rules_loop_escalating: "rules_loop True rs acc = acc @ rs"
  by (induction rs arbitrary: acc) auto

lemma rules_loop_safe:
  "rules_loop False rs acc = acc @ map removeEscalatingResources (filter wildcard_free rs)"
  by (induction rs arbitrary: acc) (auto simp: wildcard_free_def)

lemma resolveRules_scope:
  assumes "well_formed_scope role ns esc"
  shows "resolveRules (format_role_scope role ns esc) getter =
     (case lister_Get getter role of
        Inl err \<Rightarrow> if IsNotFound err then Inr [] else Inl err
      | Inr cr \<Rightarrow> Inr (if esc then role_Rules cr
                    else map removeEscalatingResources (filter wildcard_free (role_Rules cr))))"
proof -
  have "ClusterRoleEvaluatorParseScope (format_role_scope role ns esc) = Inr (role, ns, esc)"
    using assms by (simp add: ClusterRoleEvaluatorParseScope_iff)
  then show ?thesis
    by (cases esc)
      (simp_all add: resolveRules_def rules_loop_escalating rules_loop_safe split: sum.splits)
qed

lemma resolveRules_safe:
  assumes "resolveRules (format_role_scope role ns False) getter = Inr rules"
    and "well_formed_scope role ns False" and "rule \<in> set rules"
  shows "wildcard_free rule \<and> (\<forall>g r. escalating_pair g r \<longrightarrow>
           \<not> (g \<in> set (APIGroups rule) \<and> r \<in> set (Resources rule)))"
proof -
  from assms obtain orig where orig: "wildcard_free orig" "rule = removeEscalatingResources orig"
    by (auto simp: resolveRules_scope split: sum.splits if_splits)
  then show ?thesis
    using removeEscalating_safe [of _ _ orig] removeEscalating_Resources [of orig]
    by (auto simp: wildcard_free_def)
qed

section \<open>Visible namespaces\<close>

text \<open>What one scope contributes: nothing when no evaluator handles it.\<close>

definition scope_namespaces :: "string \<Rightarrow> cluster_role lister \<Rightarrow> string list result option" where
  "scope_namespaces scope getter =
     (if UserEvaluatorHandles scope
      then Some (userEvaluator_ResolveGettableNamespaces scope getter)
      else if ClusterRoleEvaluatorHandles scope
      then Some (clusterRoleEvaluator_ResolveGettableNamespaces scope getter)
      else None)"

lemma handlers_disjoint: "UserEvaluatorHandles s \<Longrightarrow> \<not> ClusterRoleEvaluatorHandles s"
  by (auto simp: UserEvaluatorHandles_def ClusterRoleEvaluatorHandles_def role_prefix_iff user_scopes)

lemma evaluators_loop_eq:
  "evaluators_loop scope getter ScopeEvaluators (False, vis, errs) =
     (case scope_namespaces scope getter of
        None \<Rightarrow> (False, vis, errs)
      | Some (Inl e) \<Rightarrow> (True, vis, errs @ [e])
      | Some (Inr ns) \<Rightarrow> (True, vis |\<union>| fset_of_list ns, errs))"
  using handlers_disjoint [of scope]
  by (auto simp: ScopeEvaluators_def scope_namespaces_def split: sum.splits)

lemma scopes_loop_visible:
  "n |\<in>| fst (scopes_loop scopes getter ignr (vis, errs)) \<longleftrightarrow>
     n |\<in>| vis \<or> (\<exists>scope \<in> set scopes. \<exists>ns. scope_namespaces scope getter = Some (Inr ns) \<and> n \<in> set ns)"
  by (induction scopes arbitrary: vis errs)
    (auto simp: evaluators_loop_eq Let_def split: option.splits sum.splits)

lemma scopes_loop_ok:
  "snd (scopes_loop scopes getter True (vis, errs)) = [] \<longleftrightarrow>
     errs = [] \<and> (\<forall>scope \<in> set scopes. \<forall>e. scope_namespaces scope getter \<noteq> Some (Inl e))"
  by (induction scopes arbitrary: vis errs)
    (auto simp: evaluators_loop_eq Let_def split: option.splits sum.splits)

lemma user_scope_namespaces:
  "UserEvaluatorHandles scope \<Longrightarrow>
     scope_namespaces scope getter =
       Some (Inr (if scope = UserFull \<or> scope = UserListAllProjects then [''*''] else []))"
  by (simp add: scope_namespaces_def userEvaluator_ResolveGettableNamespaces_def)

lemma role_scope_namespaces:
  assumes "scope_namespaces scope getter = Some (Inr ns)" "\<not> UserEvaluatorHandles scope" "n \<in> set ns"
  obtains role esc rules where "well_formed_scope role n esc" "scope = format_role_scope role n esc"
    "resolveRules scope getter = Inr rules" "RulesAllow get_namespaces_attributes rules"
proof -
  from assms obtain role m esc rules where
    "ClusterRoleEvaluatorParseScope scope = Inr (role, m, esc)"
    "resolveRules scope getter = Inr rules" "RulesAllow get_namespaces_attributes rules" "ns = [m]"
    by (auto simp: scope_namespaces_def clusterRoleEvaluator_ResolveGettableNamespaces_def
        split: if_splits sum.splits)
  with assms(3) show ?thesis by (intro that) (auto simp: ClusterRoleEvaluatorParseScope_iff)
qed

text \<open>What makes one scope show a namespace.\<close>

lemma scope_shows_iff:
  "(\<exists>ns. scope_namespaces scope getter = Some (Inr ns) \<and> n \<in> set ns) \<longleftrightarrow>
     (n = ''*'' \<and> (scope = UserFull \<or> scope = UserListAllProjects))
     \<or> (\<exists>role esc rules. scope = format_role_scope role n esc \<and> well_formed_scope role n esc
          \<and> resolveRules (format_role_scope role n esc) getter = Inr rules
          \<and> RulesAllow get_namespaces_attributes rules)"
  (is "?l \<longleftrightarrow> ?r")
proof
  assume l: ?l
  then obtain ns where ns: "scope_namespaces scope getter = Some (Inr ns)" "n \<in> set ns" by blast
  show ?r
  proof (cases "UserEvaluatorHandles scope")
    case True
    with ns show ?thesis by (auto simp: user_scope_namespaces split: if_splits)
  next
    case False
    from role_scope_namespaces [OF ns(1) False ns(2)] show ?thesis by blast
  qed
next
  assume ?r
  then consider "n = ''*''" "scope = UserFull \<or> scope = UserListAllProjects"
    | role esc rules where "scope = format_role_scope role n esc" "well_formed_scope role n esc"
      "resolveRules scope getter = Inr rules" "RulesAllow get_namespaces_attributes rules" by blast
  then show ?l
  proof cases
    case 1
    then show ?thesis by (auto simp: user_scope_namespaces UserEvaluatorHandles_def)
  next
    case 2
    have "ClusterRoleEvaluatorHandles scope"
      by (simp add: 2(1) ClusterRoleEvaluatorHandles_def role_prefix_iff format_role_scope_def)
    moreover have "ClusterRoleEvaluatorParseScope scope = Inr (role, n, esc)"
      using 2 by (simp add: ClusterRoleEvaluatorParseScope_iff)
    moreover from calculation have "\<not> UserEvaluatorHandles scope" using handlers_disjoint by blast
    ultimately show ?thesis
      using 2 by (simp add: scope_namespaces_def clusterRoleEvaluator_ResolveGettableNamespaces_def)
  qed
qed

end
