(* ===== verification/Registry.thy ===== *)
theory Registry
  imports Typed_Caches Watch_Facts Scope_Facts
begin

text \<open>
  The REST storages of the two resources (\<^verbatim>\<open>pkg/registry\<close>): listing, watching and
  getting. A request context holds the authenticated user, if any; \<open>nil\<close> contexts occur only
  where the code tests for them. The lister of a storage and its cache are the same object in
  the server, so both are the system state here. Parameters: the client behind \<open>Get\<close>, the
  range order of a name set, and the address the runtime gives to a new watch.
\<close>

type_synonym request_context = "user_info option"

text \<open>\<^verbatim>\<open>metav1.GetOptions\<close>.\<close>

record get_options =
  get_ResourceVersion :: string

section \<open>Clusters: \<^verbatim>\<open>pkg/registry/managedcluster/storage.go\<close>\<close>

record cluster_rest =
  cr_client_Get :: "request_context \<Rightarrow> string \<Rightarrow> get_options \<Rightarrow> managed_cluster result"
  cr_Lister :: "managed_cluster lister"
  cr_RoleLister :: "cluster_role lister"

text \<open>The zero values the API machinery decodes into.\<close>

definition ClusterREST_New :: runtime_object where
  "ClusterREST_New = Item (ManagedCluster \<lparr>mc_Meta = empty_meta [], mc_Body = []\<rparr>)"

definition ClusterREST_NewList :: runtime_object where
  "ClusterREST_NewList = ManagedClusterList []"

definition ClusterREST_NamespaceScoped :: bool where
  "ClusterREST_NamespaceScoped = False"

definition ClusterREST_List ::
  "cluster_rest \<Rightarrow> (string list \<Rightarrow> string list) \<Rightarrow> request_context \<Rightarrow> list_options option
    \<Rightarrow> watch_heap sys \<Rightarrow> runtime_object result" where
  "ClusterREST_List rest ord ctx options s =
     (case ctx of
        None \<Rightarrow> Inl (Forbidden ''managedclusters'' []
                       ''unable to list projects without a user on the context'')
      | Some user \<Rightarrow>
          let (labelSelector, _) = InternalListOptionsToSelectors options
          in (case ClusterCache_List ord (fst s) (cr_Lister rest) user labelSelector of
                Inl err \<Rightarrow> Inl err
              | Inr items \<Rightarrow> Inr (ManagedClusterList items)))"

fun allowed_clusters_loop :: "string fset \<Rightarrow> managed_cluster list \<Rightarrow> string fset \<Rightarrow> string fset" where
  "allowed_clusters_loop allowedNamespaces [] allowed = allowed"
| "allowed_clusters_loop allowedNamespaces (clusterset # rest) allowed =
     (if meta_Name (mc_Meta clusterset) |\<in>| allowedNamespaces
      then allowed_clusters_loop allowedNamespaces rest (finsert (meta_Name (mc_Meta clusterset)) allowed)
      else allowed_clusters_loop allowedNamespaces rest allowed)"

definition ClusterREST_Watch ::
  "cluster_rest \<Rightarrow> (string list \<Rightarrow> string list) \<Rightarrow> watcher_id \<Rightarrow> request_context option
    \<Rightarrow> list_options option \<Rightarrow> watch_heap sys
    \<Rightarrow> ((watcher_id \<times> goroutine) result, watch_heap sys) run" where
  "ClusterREST_Watch rest ord address ctx options s =
     (case ctx of
        None \<Rightarrow> Done (Inl (ErrorText ''Context is nil'')) s
      | Some None \<Rightarrow> Done (Inl (ErrorText ''no user'')) s
      | Some (Some userInfo) \<Rightarrow>
          let includeAllExisting =
                (case options of None \<Rightarrow> False | Some opts \<Rightarrow> opt_ResourceVersion opts = ''0'');
              (allowedNamespaces, err) =
                ScopesToVisibleNamespaces (user_extra userInfo ScopesKey) (cr_RoleLister rest) True
          in (case err of
                Some e \<Rightarrow> Done (Inl e) s
              | None \<Rightarrow>
                  (case lister_List (cr_Lister rest) of
                     Inl e \<Rightarrow> Done (Inl e) s
                   | Inr clustersets \<Rightarrow>
                       let allowed = allowed_clusters_loop allowedNamespaces clustersets {||};
                           (ac, heap) = s;
                           watcher = NewCacheWatcher userInfo allowed
                             (ClusterCache_watchable ord ac (cr_Lister rest)) includeAllExisting
                       in bind_run (AddWatcher address (ac, fmupd address watcher heap))
                            (\<lambda>_. Done (Inr (address, watch_start))))))"

text \<open>The table converter of the storage is a parameter.\<close>

definition ClusterREST_ConvertToTable ::
  "(request_context \<Rightarrow> runtime_object \<Rightarrow> 'opts \<Rightarrow> 'table result) \<Rightarrow> request_context \<Rightarrow> runtime_object
    \<Rightarrow> 'opts \<Rightarrow> 'table result" where
  "ClusterREST_ConvertToTable tableConverter ctx object tableOptions = tableConverter ctx object tableOptions"

definition ClusterREST_Get ::
  "cluster_rest \<Rightarrow> request_context \<Rightarrow> string \<Rightarrow> get_options \<Rightarrow> runtime_object result" where
  "ClusterREST_Get rest ctx name options =
     map_sum id (\<lambda>c. Item (ManagedCluster c)) (cr_client_Get rest ctx name \<lparr>get_ResourceVersion = []\<rparr>)"

section \<open>Cluster sets: \<^verbatim>\<open>pkg/registry/managedclusterset/storage.go\<close>\<close>

record clusterset_rest =
  csr_client_Get :: "request_context \<Rightarrow> string \<Rightarrow> get_options \<Rightarrow> managed_cluster_set result"
  csr_Lister :: "managed_cluster_set lister"
  csr_RoleLister :: "cluster_role lister"

text \<open>The same operations on the other kind.\<close>

definition ClusterSetREST_New :: runtime_object where
  "ClusterSetREST_New = Item (ManagedClusterSet \<lparr>mcs_Meta = empty_meta [], mcs_Body = []\<rparr>)"

definition ClusterSetREST_NewList :: runtime_object where
  "ClusterSetREST_NewList = ManagedClusterSetList []"

definition ClusterSetREST_NamespaceScoped :: bool where
  "ClusterSetREST_NamespaceScoped = False"

definition ClusterSetREST_List ::
  "clusterset_rest \<Rightarrow> (string list \<Rightarrow> string list) \<Rightarrow> request_context \<Rightarrow> list_options option
    \<Rightarrow> watch_heap sys \<Rightarrow> runtime_object result" where
  "ClusterSetREST_List rest ord ctx options s =
     (case ctx of
        None \<Rightarrow> Inl (Forbidden ''managedclustersets'' []
                       ''unable to list projects without a user on the context'')
      | Some user \<Rightarrow>
          let (labelSelector, _) = InternalListOptionsToSelectors options
          in (case ClusterSetCache_List ord (fst s) (csr_Lister rest) user labelSelector of
                Inl err \<Rightarrow> Inl err
              | Inr items \<Rightarrow> Inr (ManagedClusterSetList items)))"

fun allowed_clustersets_loop :: "string fset \<Rightarrow> managed_cluster_set list \<Rightarrow> string fset \<Rightarrow> string fset" where
  "allowed_clustersets_loop allowedNamespaces [] allowed = allowed"
| "allowed_clustersets_loop allowedNamespaces (clusterset # rest) allowed =
     (if meta_Name (mcs_Meta clusterset) |\<in>| allowedNamespaces
      then allowed_clustersets_loop allowedNamespaces rest (finsert (meta_Name (mcs_Meta clusterset)) allowed)
      else allowed_clustersets_loop allowedNamespaces rest allowed)"

definition ClusterSetREST_Watch ::
  "clusterset_rest \<Rightarrow> (string list \<Rightarrow> string list) \<Rightarrow> watcher_id \<Rightarrow> request_context option
    \<Rightarrow> list_options option \<Rightarrow> watch_heap sys
    \<Rightarrow> ((watcher_id \<times> goroutine) result, watch_heap sys) run" where
  "ClusterSetREST_Watch rest ord address ctx options s =
     (case ctx of
        None \<Rightarrow> Done (Inl (ErrorText ''Context is nil'')) s
      | Some None \<Rightarrow> Done (Inl (ErrorText ''no user'')) s
      | Some (Some userInfo) \<Rightarrow>
          let includeAllExisting =
                (case options of None \<Rightarrow> False | Some opts \<Rightarrow> opt_ResourceVersion opts = ''0'');
              (allowedNamespaces, err) =
                ScopesToVisibleNamespaces (user_extra userInfo ScopesKey) (csr_RoleLister rest) True
          in (case err of
                Some e \<Rightarrow> Done (Inl e) s
              | None \<Rightarrow>
                  (case lister_List (csr_Lister rest) of
                     Inl e \<Rightarrow> Done (Inl e) s
                   | Inr clustersets \<Rightarrow>
                       let allowed = allowed_clustersets_loop allowedNamespaces clustersets {||};
                           (ac, heap) = s;
                           watcher = NewCacheWatcher userInfo allowed
                             (ClusterSetCache_watchable ord ac (csr_Lister rest)) includeAllExisting
                       in bind_run (AddWatcher address (ac, fmupd address watcher heap))
                            (\<lambda>_. Done (Inr (address, watch_start))))))"

definition ClusterSetREST_ConvertToTable ::
  "(request_context \<Rightarrow> runtime_object \<Rightarrow> 'opts \<Rightarrow> 'table result) \<Rightarrow> request_context \<Rightarrow> runtime_object
    \<Rightarrow> 'opts \<Rightarrow> 'table result" where
  "ClusterSetREST_ConvertToTable tableConverter ctx object tableOptions = tableConverter ctx object tableOptions"

definition ClusterSetREST_Get ::
  "clusterset_rest \<Rightarrow> request_context \<Rightarrow> string \<Rightarrow> get_options \<Rightarrow> runtime_object result" where
  "ClusterSetREST_Get rest ctx name options =
     map_sum id (\<lambda>c. Item (ManagedClusterSet c)) (csr_client_Get rest ctx name \<lparr>get_ResourceVersion = []\<rparr>)"

section \<open>Facts about both storages\<close>

lemma allowed_clusters_loop_eq:
  "allowed_clusters_loop ns cs allowed = allowed |\<union>| (fset_of_list (map ClusterName cs) |\<inter>| ns)"
  by (induction cs arbitrary: allowed) (auto simp: ClusterName_def)

lemma allowed_clustersets_loop_eq:
  "allowed_clustersets_loop ns cs allowed = allowed |\<union>| (fset_of_list (map ClusterSetName cs) |\<inter>| ns)"
  by (induction cs arbitrary: allowed) (auto simp: ClusterSetName_def)

text \<open>A watch request that succeeds has registered a new watch; the caches are as before.\<close>

definition watch_outcome ::
  "watcher_id \<Rightarrow> user_info \<Rightarrow> string fset \<Rightarrow> watchable \<Rightarrow> watch_heap sys \<Rightarrow> watch_heap sys \<Rightarrow> bool" where
  "watch_outcome w user visible wc s s' \<longleftrightarrow>
     \<not> watcherLocked (fst s)
     \<and> (\<exists>all. s' = ((fst s)\<lparr>watchers := watchers (fst s) @ [w]\<rparr>,
                   fmupd w (NewCacheWatcher user visible wc all) (snd s)))"

lemma ClusterREST_Watch_ok:
  assumes "ClusterREST_Watch rest ord w ctx options s = Done (Inr r) s'"
  obtains user ns cs where "ctx = Some (Some user)" "r = (w, watch_start)"
    "ScopesToVisibleNamespaces (user_extra user ScopesKey) (cr_RoleLister rest) True = (ns, None)"
    "lister_List (cr_Lister rest) = Inr cs"
    "watch_outcome w user (fset_of_list (map ClusterName cs) |\<inter>| ns)
       (ClusterCache_watchable ord (fst s) (cr_Lister rest)) s s'"
  using assms that
  by (cases s) (auto simp: ClusterREST_Watch_def AddWatcher_eq allowed_clusters_loop_eq
      watch_outcome_def Let_def split: option.splits sum.splits prod.splits if_splits)

lemma ClusterSetREST_Watch_ok:
  assumes "ClusterSetREST_Watch rest ord w ctx options s = Done (Inr r) s'"
  obtains user ns cs where "ctx = Some (Some user)" "r = (w, watch_start)"
    "ScopesToVisibleNamespaces (user_extra user ScopesKey) (csr_RoleLister rest) True = (ns, None)"
    "lister_List (csr_Lister rest) = Inr cs"
    "watch_outcome w user (fset_of_list (map ClusterSetName cs) |\<inter>| ns)
       (ClusterSetCache_watchable ord (fst s) (csr_Lister rest)) s s'"
  using assms that
  by (cases s) (auto simp: ClusterSetREST_Watch_def AddWatcher_eq allowed_clustersets_loop_eq
      watch_outcome_def Let_def split: option.splits sum.splits prod.splits if_splits)

lemma watch_outcome_frame: "watch_outcome w u v wc s s' \<Longrightarrow> same_caches (fst s) s'"
  by (auto simp: watch_outcome_def)


section \<open>A watch request in two halves\<close>

text \<open>
  A request reads the cache in \<open>NewCacheWatcher\<close> and registers the watch afterwards, and no
  lock spans the two: the goroutine of the synchronisation may run in between.
  \<open>ClusterREST_Watch\<close> is the case in which it does not.
\<close>

definition ClusterREST_Watch_snapshot ::
  "cluster_rest \<Rightarrow> (string list \<Rightarrow> string list) \<Rightarrow> request_context option \<Rightarrow> list_options option
    \<Rightarrow> auth_cache \<Rightarrow> watch result" where
  "ClusterREST_Watch_snapshot rest ord ctx options ac =
     (case ctx of
        None \<Rightarrow> Inl (ErrorText ''Context is nil'')
      | Some None \<Rightarrow> Inl (ErrorText ''no user'')
      | Some (Some userInfo) \<Rightarrow>
          let includeAllExisting =
                (case options of None \<Rightarrow> False | Some opts \<Rightarrow> opt_ResourceVersion opts = ''0'');
              (allowedNamespaces, err) =
                ScopesToVisibleNamespaces (user_extra userInfo ScopesKey) (cr_RoleLister rest) True
          in (case err of
                Some e \<Rightarrow> Inl e
              | None \<Rightarrow>
                  (case lister_List (cr_Lister rest) of
                     Inl e \<Rightarrow> Inl e
                   | Inr clustersets \<Rightarrow>
                       let allowed = allowed_clusters_loop allowedNamespaces clustersets {||}
                       in Inr (NewCacheWatcher userInfo allowed
                            (ClusterCache_watchable ord ac (cr_Lister rest)) includeAllExisting))))"

definition ClusterREST_Watch_register ::
  "watcher_id \<Rightarrow> watch \<Rightarrow> watch_heap sys \<Rightarrow> (watcher_id \<times> goroutine, watch_heap sys) run" where
  "ClusterREST_Watch_register address watcher s =
     (let (ac, heap) = s
      in bind_run (AddWatcher address (ac, fmupd address watcher heap)) (\<lambda>_. Done (address, watch_start)))"

lemma ClusterREST_Watch_halves:
  "ClusterREST_Watch rest ord w ctx options s =
     (case ClusterREST_Watch_snapshot rest ord ctx options (fst s) of
        Inl e \<Rightarrow> Done (Inl e) s
      | Inr cw \<Rightarrow> bind_run (ClusterREST_Watch_register w cw s) (\<lambda>r. Done (Inr r)))"
  by (cases s) (auto simp: ClusterREST_Watch_def ClusterREST_Watch_snapshot_def ClusterREST_Watch_register_def
      AddWatcher_eq Let_def split: option.split sum.split prod.split)

end
