(* ===== verification/Scheme_Register.thy ===== *)
theory Scheme_Register
  imports Scopes
begin

text \<open>
  \<^verbatim>\<open>pkg/apis/cluster\<close>: the API group of the server and the registration of its kinds. A
  scheme is the part of \<^verbatim>\<open>runtime.Scheme\<close> that the registration changes and the server
  reads: the known kinds, the versions in the order they were first seen, and the version
  priorities. What \<^verbatim>\<open>metav1.AddToGroupVersion\<close> and \<^verbatim>\<open>metainternalversion.AddToScheme\<close> add
  is a parameter; \<open>None\<close> is a panic of \<open>utilruntime.Must\<close>.
\<close>

record group_version =
  gv_Group :: string
  gv_Version :: string

record group_kind =
  gk_Group :: string
  gk_Kind :: string

record scheme =
  knownKinds :: "(group_version \<times> string) list"
  observedVersions :: "group_version list"
  versionPriority :: "(string, string list) fmap"

definition NewScheme :: scheme where
  "NewScheme = \<lparr>knownKinds = [], observedVersions = [], versionPriority = fmempty\<rparr>"

definition APIVersionInternal :: string where "APIVersionInternal = ''__internal''"

section \<open>The operations of a scheme\<close>

definition addObservedVersion :: "scheme \<Rightarrow> group_version \<Rightarrow> scheme" where
  "addObservedVersion s version =
     (if length (gv_Version version) = 0 \<or> gv_Version version = APIVersionInternal then s
      else if version \<in> set (observedVersions s) then s
      else s\<lparr>observedVersions := observedVersions s @ [version]\<rparr>)"

fun add_kinds_loop :: "scheme \<Rightarrow> group_version \<Rightarrow> string list \<Rightarrow> scheme" where
  "add_kinds_loop s gv [] = s"
| "add_kinds_loop s gv (kind # rest) =
     add_kinds_loop (s\<lparr>knownKinds := (gv, kind) # knownKinds s\<rparr>) gv rest"

definition AddKnownTypes :: "scheme \<Rightarrow> group_version \<Rightarrow> string list \<Rightarrow> scheme" where
  "AddKnownTypes s gv kinds = add_kinds_loop (addObservedVersion s gv) gv kinds"

definition SetVersionPriority :: "scheme \<Rightarrow> group_version list \<Rightarrow> scheme result" where
  "SetVersionPriority s versions =
     (if list_ex (\<lambda>v. length (gv_Version v) = 0 \<or> gv_Version v = APIVersionInternal) versions
      then Inl (ErrorText ''internal versions cannot be prioritized'')
      else if length (remdups (map gv_Group versions)) \<noteq> 1
      then Inl (ErrorText ''must register versions for exactly one group'')
      else Inr (s\<lparr>versionPriority := fmupd (hd (map gv_Group versions)) (map gv_Version versions)
                    (versionPriority s)\<rparr>))"

definition PrioritizedVersionsForGroup :: "scheme \<Rightarrow> string \<Rightarrow> group_version list" where
  "PrioritizedVersionsForGroup s grp =
     (let ret = map (\<lambda>v. \<lparr>gv_Group = grp, gv_Version = v\<rparr>)
                  (case fmlookup (versionPriority s) grp of None \<Rightarrow> [] | Some vs \<Rightarrow> vs)
      in fold (\<lambda>observed acc. if gv_Group observed \<noteq> grp \<or> observed \<in> set acc then acc else acc @ [observed])
           (observedVersions s) ret)"

section \<open>The group and its two versions\<close>

definition GroupName :: string where "GroupName = ''view.open-cluster-management.io''"

definition SchemeGroupVersion :: group_version where
  "SchemeGroupVersion = \<lparr>gv_Group = GroupName, gv_Version = APIVersionInternal\<rparr>"

definition GroupKindOf :: "string \<Rightarrow> group_kind" where
  "GroupKindOf kind = \<lparr>gk_Group = gv_Group SchemeGroupVersion, gk_Kind = kind\<rparr>"

definition Resource :: "string \<Rightarrow> group_resource" where
  "Resource resource = \<lparr>gr_Group = gv_Group SchemeGroupVersion, gr_Resource = resource\<rparr>"

definition v1_GroupVersion :: group_version where
  "v1_GroupVersion = \<lparr>gv_Group = ''view.open-cluster-management.io'', gv_Version = ''v1''\<rparr>"

definition v1_Resource :: "string \<Rightarrow> group_resource" where
  "v1_Resource resource = \<lparr>gr_Group = ''view.open-cluster-management.io'', gr_Resource = resource\<rparr>"

definition v1_addKnownTypes :: "(scheme \<Rightarrow> group_version \<Rightarrow> scheme) \<Rightarrow> scheme \<Rightarrow> scheme" where
  "v1_addKnownTypes addToGroupVersion s =
     addToGroupVersion
       (AddKnownTypes s v1_GroupVersion [''ManagedCluster'', ''ManagedClusterList''])
       v1_GroupVersion"

definition v1alpha1_GroupVersion :: group_version where
  "v1alpha1_GroupVersion = \<lparr>gv_Group = ''view.open-cluster-management.io'', gv_Version = ''v1alpha1''\<rparr>"

definition v1alpha1_Resource :: "string \<Rightarrow> group_resource" where
  "v1alpha1_Resource resource =
     \<lparr>gr_Group = ''view.open-cluster-management.io'', gr_Resource = resource\<rparr>"

definition v1alpha1_addKnownTypes :: "(scheme \<Rightarrow> group_version \<Rightarrow> scheme) \<Rightarrow> scheme \<Rightarrow> scheme" where
  "v1alpha1_addKnownTypes addToGroupVersion s =
     addToGroupVersion
       (AddKnownTypes s v1alpha1_GroupVersion [''ManagedClusterSet'', ''ManagedClusterSetList''])
       v1alpha1_GroupVersion"

definition Install :: "(scheme \<Rightarrow> group_version \<Rightarrow> scheme) \<Rightarrow> scheme \<Rightarrow> scheme option" where
  "Install addToGroupVersion s =
     (let s1 = v1_addKnownTypes addToGroupVersion s;
          s2 = v1alpha1_addKnownTypes addToGroupVersion s1
      in case SetVersionPriority s2 [v1_GroupVersion, v1alpha1_GroupVersion] of
           Inl err \<Rightarrow> None | Inr s3 \<Rightarrow> Some s3)"

text \<open>
  The package initialiser: the meta types, the internal versions (parameter), the
  unversioned types, then the two versions.
\<close>

definition unversionedTypes :: "string list" where
  "unversionedTypes = [''Status'', ''WatchEvent'', ''APIVersions'', ''APIGroupList'', ''APIGroup'',
     ''APIResourceList'', ''Table'']"

definition init_scheme ::
  "(scheme \<Rightarrow> group_version \<Rightarrow> scheme) \<Rightarrow> (scheme \<Rightarrow> scheme) \<Rightarrow> scheme option" where
  "init_scheme addToGroupVersion addInternal =
     (let unversioned = \<lparr>gv_Group = [], gv_Version = ''v1''\<rparr>;
          s1 = addToGroupVersion NewScheme unversioned;
          s2 = addInternal s1;
          s3 = AddKnownTypes s2 unversioned unversionedTypes
      in Install addToGroupVersion s3)"

section \<open>What is served first\<close>

lemma fold_prioritized:
  "\<exists>rest. fold (\<lambda>o' acc. if gv_Group o' \<noteq> grp \<or> o' \<in> set acc then acc else acc @ [o']) os acc = acc @ rest"
proof (induction os arbitrary: acc)
  case (Cons o' os)
  from Cons.IH [of acc] Cons.IH [of "acc @ [o']"] show ?case by auto
qed simp

lemma add_kinds_loop_kinds:
  "set (knownKinds (add_kinds_loop s gv kinds)) = set (knownKinds s) \<union> Pair gv ` set kinds"
  by (induction kinds arbitrary: s) auto

lemma AddKnownTypes_kinds:
  "set (knownKinds (AddKnownTypes s gv kinds)) = set (knownKinds s) \<union> Pair gv ` set kinds"
  by (simp add: AddKnownTypes_def add_kinds_loop_kinds addObservedVersion_def)

lemma SetVersionPriority_own:
  "SetVersionPriority s [v1_GroupVersion, v1alpha1_GroupVersion] =
     Inr (s\<lparr>versionPriority := fmupd GroupName [''v1'', ''v1alpha1''] (versionPriority s)\<rparr>)"
  by (simp add: SetVersionPriority_def v1_GroupVersion_def v1alpha1_GroupVersion_def
      APIVersionInternal_def GroupName_def)

lemma Install_eq:
  "Install add s = Some (let s2 = v1alpha1_addKnownTypes add (v1_addKnownTypes add s)
     in s2\<lparr>versionPriority := fmupd GroupName [''v1'', ''v1alpha1''] (versionPriority s2)\<rparr>)"
  by (simp add: Install_def SetVersionPriority_own Let_def)

end
