(* ===== verification/Server.thy ===== *)
theory Server
  imports Registry Scheme_Register
begin

text \<open>
  \<^verbatim>\<open>pkg/cmd\<close>: how the server is put together and what runs in it. \<open>NewFilterServer\<close> builds
  the two caches, the storages and the post-start hooks; \<open>Run\<close> and the options are chains of
  calls to the API machinery (parameters) that stop at the first error. The step relation
  \<open>server_step\<close> interleaves the goroutines that the hooks start with the requests.
\<close>

section \<open>Options\<close>

text \<open>
  The calls of \<^verbatim>\<open>pkg/cmd/options\<close> on the embedded options \<open>'o\<close> and the configuration \<open>'c\<close>;
  a call that changes its receiver returns it. \<open>Error_text\<close> renders an error.
\<close>

record ('o, 'c) option_calls =
  DefaultAdvertiseAddress :: "'o \<Rightarrow> 'o result"
  MaybeDefaultWithSelfSignedCerts :: "'o \<Rightarrow> 'o result"
  ServerRun_Validate :: "'o \<Rightarrow> go_error list"
  SecureServing_Validate :: "'o \<Rightarrow> go_error list"
  Authentication_Validate :: "'o \<Rightarrow> go_error list"
  Authorization_Validate :: "'o \<Rightarrow> go_error list"
  NewConfig :: "'c"
  ServerRun_ApplyTo :: "'o \<Rightarrow> 'c \<Rightarrow> 'c result"
  SecureServing_ApplyTo :: "'o \<Rightarrow> 'c \<Rightarrow> 'c result"
  Authentication_ApplyTo :: "'o \<Rightarrow> 'c \<Rightarrow> 'c result"
  Authorization_ApplyTo :: "'o \<Rightarrow> 'c \<Rightarrow> 'c result"
  Error_text :: "go_error \<Rightarrow> string"

definition SetDefaults :: "('o, 'c) option_calls \<Rightarrow> 'o \<Rightarrow> 'o result" where
  "SetDefaults calls opts =
     (case DefaultAdvertiseAddress calls opts of
        Inl err \<Rightarrow> Inl err
      | Inr opts1 \<Rightarrow>
          (case MaybeDefaultWithSelfSignedCerts calls opts1 of
             Inl err \<Rightarrow> Inl (ErrorText (''error creating self-signed certificates: '' @ Error_text calls err))
           | Inr opts2 \<Rightarrow> Inr opts2))"

definition APIServerConfig :: "('o, 'c) option_calls \<Rightarrow> 'o \<Rightarrow> 'c result" where
  "APIServerConfig calls opts =
     (case ServerRun_ApplyTo calls opts (NewConfig calls) of
        Inl err \<Rightarrow> Inl err
      | Inr c1 \<Rightarrow>
          (case SecureServing_ApplyTo calls opts c1 of
             Inl err \<Rightarrow> Inl err
           | Inr c2 \<Rightarrow>
               (case Authentication_ApplyTo calls opts c2 of
                  Inl err \<Rightarrow> Inl err
                | Inr c3 \<Rightarrow>
                    (case Authorization_ApplyTo calls opts c3 of
                       Inl err \<Rightarrow> Inl err
                     | Inr c4 \<Rightarrow> Inr c4))))"

definition Validate :: "('o, 'c) option_calls \<Rightarrow> 'o \<Rightarrow> go_error list" where
  "Validate calls opts =
     (let errors = [];
          errs = ServerRun_Validate calls opts;
          errors = (if length errs > 0 then errors @ errs else errors);
          errs = SecureServing_Validate calls opts;
          errors = (if length errs > 0 then errors @ errs else errors);
          errs = Authentication_Validate calls opts;
          errors = (if length errs > 0 then errors @ errs else errors);
          errs = Authorization_Validate calls opts;
          errors = (if length errs > 0 then errors @ errs else errors)
      in errors)"

section \<open>The filter server\<close>

datatype hook_action =
    StartInformers
  | StartClusterInformers
  | GoClusterCacheRun nat        \<comment> \<open>period in seconds\<close>
  | GoClusterSetCacheRun nat

record filter_server =
  fs_clusterCache :: auth_cache
  fs_clustersetCache :: auth_cache
  fs_storage :: "(string \<times> string) list"      \<comment> \<open>version, resource\<close>
  fs_prioritizedVersions :: "group_version list"
  fs_hooks :: "(string \<times> hook_action list) list"

definition superUserName :: string where "superUserName = ''cluster-amdin''"

definition server_evaluator ::
  "cluster_role lister \<Rightarrow> cluster_role_binding lister \<Rightarrow> subject_access_evaluator" where
  "server_evaluator clusterRoles clusterRoleBindings =
     NewSubjectAccessEvaluator clusterRoles clusterRoleBindings superUserName"

text \<open>
  \<open>newServer\<close> and \<open>install\<close> are the two calls of the API machinery that may fail; the
  result of \<open>AddPostStartHook\<close> is dropped.
\<close>

definition NewFilterServer ::
  "unit result \<Rightarrow> (filter_server \<Rightarrow> go_error option) \<Rightarrow> scheme \<Rightarrow> filter_server result" where
  "NewFilterServer newServer install scheme =
     (case newServer of
        Inl err \<Rightarrow> Inl err
      | Inr _ \<Rightarrow>
          let clusterCache = NewClusterCache;
              clustersetCache = NewClusterSetCache;
              storage = [(gv_Version v1_GroupVersion, ''managedclusters''),
                         (gv_Version v1alpha1_GroupVersion, ''managedclustersets'')];
              server = \<lparr>fs_clusterCache = clusterCache, fs_clustersetCache = clustersetCache,
                        fs_storage = storage,
                        fs_prioritizedVersions = PrioritizedVersionsForGroup scheme GroupName,
                        fs_hooks = []\<rparr>
          in (case install server of
                Some err \<Rightarrow> Inl err
              | None \<Rightarrow> Inr (server\<lparr>fs_hooks :=
                  [(''start-informers'', [StartInformers, StartClusterInformers]),
                   (''start-cache'', [GoClusterCacheRun 1])]\<rparr>)))"

definition started :: "filter_server \<Rightarrow> hook_action set" where
  "started fs = \<Union> (set ` snd ` set (fs_hooks fs))"

text \<open>
  \<open>Run\<close> of \<^verbatim>\<open>start.go\<close>: the clients it builds are opaque, so their constructors only fail or
  succeed. The result is the error, if any, and the started actions, in order.
\<close>

record ('o, 'c) run_calls =
  rc_options :: "('o, 'c) option_calls"
  BuildConfigFromFlags :: "unit result"
  NewKubeClient :: "unit result"
  NewClusterClient :: "unit result"
  NewAPIServer :: "'c \<Rightarrow> unit result"
  InstallAPIGroup :: "filter_server \<Rightarrow> go_error option"
  ServerRun :: "filter_server \<Rightarrow> go_error option"

definition Run ::
  "('o, 'c) run_calls \<Rightarrow> scheme \<Rightarrow> 'o \<Rightarrow> go_error option \<times> hook_action list" where
  "Run calls scheme opts0 =
     (case SetDefaults (rc_options calls) opts0 of
        Inl err \<Rightarrow> (Some err, [])
      | Inr opts \<Rightarrow>
          let errs = Validate (rc_options calls) opts
          in if length errs \<noteq> 0 then (NewAggregate errs, [])
             else case BuildConfigFromFlags calls of
               Inl err \<Rightarrow> (Some err, [])
             | Inr _ \<Rightarrow>
                 (case NewKubeClient calls of
                    Inl err \<Rightarrow> (Some err, [])
                  | Inr _ \<Rightarrow>
                      (case NewClusterClient calls of
                         Inl err \<Rightarrow> (Some err, [])
                       | Inr _ \<Rightarrow>
                           (case APIServerConfig (rc_options calls) opts of
                              Inl err \<Rightarrow> (Some err, [])
                            | Inr config \<Rightarrow>
                                (case NewFilterServer (NewAPIServer calls config)
                                        (InstallAPIGroup calls) scheme of
                                   Inl err \<Rightarrow> (Some err, [])
                                 | Inr server \<Rightarrow>
                                     (ServerRun calls server,
                                      [StartInformers, StartClusterInformers]))))))"

end
