(* ===== verification/Pass_Steps.thy ===== *)
theory Pass_Steps
  imports Watcher_Room
begin

text \<open>
  The pass in small steps. The goroutine of the synchronisation does not stop the world: between
  two requests of a pass, other goroutines list, watch and stop, and the informers move on.
  Here a pass is a machine with a program counter; one tick is one iteration of one of the
  loops of \<open>synchronize\<close>, and every tick may read another state of the informers. Run over one
  environment the machine is \<open>synchronize\<close>; over changing ones it keeps the invariants and ends.
\<close>

section \<open>The machine\<close>

text \<open>
  The local variables of the pass: the names found so far (\<open>newKnownNames\<close> in the end), the
  state of the informers at its start (\<open>currentState\<close>), and what the loops have left.
\<close>

datatype pass_pc =
    Idle
  | AtRequests "review_request list" "string fset" string
  | AtBindings "string fset" string
  | AtRoles "cluster_role_binding list" "string fset" string
  | AtNames cluster_role_binding cluster_role "string list" "cluster_role_binding list" "string fset" string
  | AtPurge "string fset" string
  | AtGone "string list" "string fset" string
  | Stuck

text \<open>Where the machine is after a call: at the next program point, or stuck in the call.\<close>

fun after_call :: "('a, 'h sys) run \<Rightarrow> ('a \<Rightarrow> pass_pc) \<Rightarrow> pass_pc \<times> 'h sys" where
  "after_call (Done a s) k = (k a, s)"
| "after_call (Blocked s) k = (Stuck, s)"

fun pass_tick :: "sync_env \<Rightarrow> 'h gmc \<Rightarrow> pass_pc \<Rightarrow> 'h sys \<Rightarrow> pass_pc \<times> 'h sys" where
  "pass_tick env gmc Idle s =
     (let (skip, currentState) = SkipSynchronize (lastState (fst s))
            [resourceSyncVersion env,
             unionLastSyncResourceVersion [roleSyncVersion env, bindingSyncVersion env]]
      in case syncRequests env of
           Inl err \<Rightarrow> (AtBindings {||} currentState, s)
         | Inr requests \<Rightarrow> (AtRequests requests {||} currentState, s))"
| "pass_tick env gmc (AtRequests [] names st) s = (AtBindings names st, s)"
| "pass_tick env gmc (AtRequests (request # rest) names st) s =
     after_call (syncRequest env gmc request s)
       (\<lambda>_. AtRequests rest (finsert (rq_name request) names) st)"
| "pass_tick env gmc (AtBindings names st) s =
     (case lister_List (clusterrolebindingLister env) of
        Inl err \<Rightarrow> (AtPurge names st, s)
      | Inr roleBindings \<Rightarrow> (AtRoles roleBindings names st, s))"
| "pass_tick env gmc (AtRoles [] names st) s = (AtPurge names st, s)"
| "pass_tick env gmc (AtRoles (roleBinding # rest) names st) s =
     (case lister_Get (clusterroleLister env) (ref_Name (binding_RoleRef roleBinding)) of
        Inl err \<Rightarrow> (AtRoles rest names st, s)
      | Inr clusterRole \<Rightarrow>
          let (resources, all) =
                getResoureNamesFromClusterRole clusterRole (ac_group (fst s)) (ac_resource (fst s));
              resources = (if all then allKnownNames (fst s) else resources)
          in (AtNames roleBinding clusterRole (sorted_list_of_fset resources) rest names st, s))"
| "pass_tick env gmc (AtNames roleBinding clusterRole [] rest names st) s = (AtRoles rest names st, s)"
| "pass_tick env gmc (AtNames roleBinding clusterRole (name # others) rest names st) s =
     after_call (syncRequest env gmc (binding_request roleBinding clusterRole name) s)
       (\<lambda>_. AtNames roleBinding clusterRole others rest names st)"
| "pass_tick env gmc (AtPurge names st) s =
     (let (ac, h) = s;
          reviewRecordItems = store_List (record_order env) (reviewRecordStore ac);
          ac' = purge_loop names reviewRecordItems ac
      in (AtGone (name_order env (sorted_list_of_fset (allKnownNames ac |-| names))) names st, (ac', h)))"
| "pass_tick env gmc (AtGone [] names st) s =
     (let (ac, h) = s in (Idle, (ac\<lparr>allKnownNames := names, lastState := st\<rparr>, h)))"
| "pass_tick env gmc (AtGone (name # others) names st) s =
     after_call (notifyWatchers gmc name {||} {||} s) (\<lambda>_. AtGone others names st)"
| "pass_tick env gmc Stuck s = (Stuck, s)"

section \<open>A pass ends\<close>

text \<open>Phase, bindings left, and iterations left of the inner loop, in lexicographic order.\<close>

fun pass_rank :: "pass_pc \<Rightarrow> nat \<times> nat \<times> nat" where
  "pass_rank (AtRequests requests names st) = (5, 0, length requests)"
| "pass_rank (AtBindings names st) = (4, 0, 0)"
| "pass_rank (AtRoles bindings names st) = (3, length bindings, 0)"
| "pass_rank (AtNames b cr ns bindings names st) = (3, length bindings, Suc (length ns))"
| "pass_rank (AtPurge names st) = (2, 0, 0)"
| "pass_rank (AtGone ns names st) = (1, 0, length ns)"
| "pass_rank Idle = (0, 0, 0)"
| "pass_rank Stuck = (0, 0, 0)"

definition rank_less :: "((nat \<times> nat \<times> nat) \<times> (nat \<times> nat \<times> nat)) set" where
  "rank_less = less_than <*lex*> less_than <*lex*> less_than"

lemma wf_rank_less: "wf rank_less"
  by (simp add: rank_less_def wf_lex_prod)

lemma after_call_pc: "fst (after_call r (\<lambda>_. pc)) \<in> {pc, Stuck}"
  by (cases r) simp_all

lemma pass_tick_rank:
  assumes "pc \<noteq> Idle" "pc \<noteq> Stuck"
  shows "(pass_rank (fst (pass_tick env gmc pc s)), pass_rank pc) \<in> rank_less"
  using assms
proof (cases "(env, gmc, pc, s)" rule: pass_tick.cases)
  case (3 env' gmc' request rest names st s')
  then show ?thesis
    using after_call_pc [of "syncRequest env gmc request s" "AtRequests rest (finsert (rq_name request) names) st"]
    by (auto simp: rank_less_def)
next
  case (8 env' gmc' b cr name others rest names st s')
  then show ?thesis
    using after_call_pc [of "syncRequest env gmc (binding_request b cr name) s" "AtNames b cr others rest names st"]
    by (auto simp: rank_less_def)
next
  case (11 env' gmc' name others names st s')
  then show ?thesis
    using after_call_pc [of "notifyWatchers gmc name {||} {||} s" "AtGone others names st"]
    by (auto simp: rank_less_def)
qed (auto simp: rank_less_def Let_def split: sum.split prod.split)

text \<open>
  Whatever happens to the state and to the informers between two ticks, the pass does not tick
  for ever.
\<close>

lemma pass_must_end:
  assumes "\<And>i. pc (Suc i) = fst (pass_tick (env i) (gmc i) (pc i) (s i))"
  shows "\<exists>i. pc i \<in> {Idle, Stuck}"
proof (rule ccontr)
  assume "\<not> ?thesis"
  then have "pc i \<noteq> Idle" "pc i \<noteq> Stuck" for i
    by blast+
  then have "(pass_rank (pc (Suc i)), pass_rank (pc i)) \<in> rank_less" for i
    unfolding assms by (rule pass_tick_rank)
  then have "\<exists>f. \<forall>i. (f (Suc i), f i) \<in> rank_less"
    by (intro exI [of _ "\<lambda>i. pass_rank (pc i)"]) simp
  then show False
    using wf_rank_less unfolding wf_iff_no_infinite_down_chain by blast
qed

section \<open>Ticks keep the invariants\<close>

lemma after_call_all: "run_all (\<lambda>s. P (fst s)) r \<Longrightarrow> P (fst (snd (after_call r k)))"
  by (cases r) simp_all

context cache_watcher
begin

lemma pass_tick_closed:
  assumes "step_closed env P" "P (fst s)"
  shows "P (fst (snd (pass_tick env gmc pc s)))"
proof (cases "(env, gmc, pc, s)" rule: pass_tick.cases)
  case (3 env' gmc' request rest names st s')
  then show ?thesis
    using after_call_all [OF syncRequest_closed [OF assms]] by simp
next
  case (8 env' gmc' b cr name others rest names st s')
  then show ?thesis
    using after_call_all [OF syncRequest_closed [OF assms]] by simp
next
  case (11 env' gmc' name others names st s')
  have "run_all (same_caches (fst s)) (notifyWatchers gmc name {||} {||} s)"
    using notify_frame [of "fst s" name "{||}" "{||}" "snd s"] by simp
  from after_call_all [OF run_all_same_caches [OF assms this]] 11 show ?thesis by simp
qed (use assms in \<open>auto simp: step_closed_def Let_def split: sum.split prod.split\<close>)

end

section \<open>Over one environment the machine is the pass\<close>

definition tick_rel :: "sync_env \<Rightarrow> 'h gmc \<Rightarrow> pass_pc \<times> 'h sys \<Rightarrow> pass_pc \<times> 'h sys \<Rightarrow> bool" where
  "tick_rel env gmc x y \<longleftrightarrow> y = pass_tick env gmc (fst x) (snd x)"

abbreviation ticks :: "sync_env \<Rightarrow> 'h gmc \<Rightarrow> pass_pc \<times> 'h sys \<Rightarrow> pass_pc \<times> 'h sys \<Rightarrow> bool" where
  "ticks env gmc \<equiv> (tick_rel env gmc)\<^sup>*\<^sup>*"

lemma ticks_step:
  "pass_tick env gmc pc s = x \<Longrightarrow> ticks env gmc x y \<Longrightarrow> ticks env gmc (pc, s) y"
  by (rule converse_rtranclp_into_rtranclp [where b = x]) (simp_all add: tick_rel_def)

lemma ticks_bind:
  assumes "ticks env gmc x (after_call r k)"
    and "\<And>a s. r = Done a s \<Longrightarrow> ticks env gmc (k a, s) (after_call (f a s) k')"
  shows "ticks env gmc x (after_call (bind_run r f) k')"
proof (cases r)
  case (Done a s)
  with assms show ?thesis by (auto intro: rtranclp_trans)
next
  case (Blocked s)
  with assms(1) show ?thesis by simp
qed

lemma ticks_call:
  assumes "pass_tick env gmc pc s = after_call r k"
    and "\<And>a s'. r = Done a s' \<Longrightarrow> ticks env gmc (k a, s') (after_call (f a s') k')"
  shows "ticks env gmc (pc, s) (after_call (bind_run r f) k')"
  by (rule ticks_bind [OF ticks_step [OF assms(1) rtranclp.rtrancl_refl] assms(2)])

lemma requests_ticks:
  "ticks env gmc (AtRequests rqs names st, s)
     (after_call (requests_loop env gmc rqs names s) (\<lambda>names. AtBindings names st))"
proof (induction rqs arbitrary: names s)
  case Nil
  show ?case by (rule ticks_step [OF refl]) simp
next
  case (Cons rq rqs)
  show ?case
    unfolding requests_loop.simps by (rule ticks_call [OF pass_tick.simps(3)]) (rule Cons.IH)
qed

lemma names_ticks:
  "ticks env gmc (AtNames b cr ns bs names st, s)
     (after_call (names_loop env gmc b cr ns s) (\<lambda>_. AtRoles bs names st))"
proof (induction ns arbitrary: s)
  case Nil
  show ?case by (rule ticks_step [OF refl]) simp
next
  case (Cons n ns)
  show ?case
    unfolding names_loop.simps Let_def binding_request_def [symmetric]
    by (rule ticks_call [OF pass_tick.simps(8)]) (rule Cons.IH)
qed

lemma roles_tick:
  "pass_tick env gmc (AtRoles (b # bs) names st) s =
     (case lister_Get (clusterroleLister env) (ref_Name (binding_RoleRef b)) of
        Inl err \<Rightarrow> (AtRoles bs names st, s)
      | Inr cr \<Rightarrow> (AtNames b cr (sorted_list_of_fset (role_resources (fst s) cr)) bs names st, s))"
  by (simp add: role_resources_def split: sum.split prod.split)

lemma roles_ticks:
  "ticks env gmc (AtRoles bs names st, s)
     (after_call (role_bindings_loop env gmc bs s) (\<lambda>_. AtPurge names st))"
proof (induction bs arbitrary: s)
  case Nil
  show ?case by (rule ticks_step [OF refl]) simp
next
  case (Cons b bs)
  show ?case
  proof (cases "lister_Get (clusterroleLister env) (ref_Name (binding_RoleRef b))")
    case (Inl e)
    then show ?thesis using Cons.IH by (intro ticks_step [OF roles_tick]) simp
  next
    case (Inr cr)
    have "ticks env gmc (AtNames b cr (sorted_list_of_fset (role_resources (fst s) cr)) bs names st, s)
        (after_call (bind_run (names_loop env gmc b cr (sorted_list_of_fset (role_resources (fst s) cr)) s)
           (\<lambda>_. role_bindings_loop env gmc bs)) (\<lambda>_. AtPurge names st))"
      by (rule ticks_bind [OF names_ticks]) (rule Cons.IH)
    then show ?thesis
      unfolding role_bindings_loop_Cons
      by (intro ticks_step [OF roles_tick]) (simp add: Inr)
  qed
qed

lemma gone_ticks:
  "ticks env gmc (AtGone ns names st, s)
     (after_call (bind_run (for_each (\<lambda>n. notifyWatchers gmc n {||} {||}) ns s)
        (\<lambda>_ (ac, h). Done () (ac\<lparr>allKnownNames := names, lastState := st\<rparr>, h))) (\<lambda>_. Idle))"
proof (induction ns arbitrary: s)
  case Nil
  show ?case by (cases s) (auto intro!: ticks_step [OF refl])
next
  case (Cons n ns)
  have assoc: "bind_run (bind_run r f) g = bind_run r (\<lambda>a s. bind_run (f a s) g)"
    for r :: "(unit, 'b sys) run" and f :: "unit \<Rightarrow> 'b sys \<Rightarrow> (unit, 'b sys) run"
      and g :: "unit \<Rightarrow> 'b sys \<Rightarrow> (unit, 'b sys) run"
    by (cases r) simp_all
  show ?case
    unfolding for_each.simps assoc by (rule ticks_call [OF pass_tick.simps(11)]) (rule Cons.IH)
qed

text \<open>From the bindings on, and the whole pass.\<close>

lemma bindings_ticks:
  "ticks env gmc (AtBindings names st, s)
     (after_call (synchronizeClusterRoleBindings env gmc s) (\<lambda>_. AtPurge names st))"
  by (rule ticks_step [OF refl])
    (simp add: synchronizeClusterRoleBindings_def roles_ticks split: sum.split)

lemma purge_ticks:
  "ticks env gmc (AtPurge names st, s)
     (after_call (bind_run (purgeDeletedResources env gmc (allKnownNames (fst s)) names s)
        (\<lambda>_ (ac, h). Done () (ac\<lparr>allKnownNames := names, lastState := st\<rparr>, h))) (\<lambda>_. Idle))"
  by (cases s)
    (auto simp: purgeDeletedResources_def Let_def intro!: ticks_step [OF refl] gone_ticks)

lemma resources_ticks:
  "\<exists>x. tick_rel env gmc (Idle, s) x
     \<and> ticks env gmc x (after_call (syncResources env gmc s) (\<lambda>names. AtBindings names
         (snd (SkipSynchronize (lastState (fst s)) [resourceSyncVersion env,
             unionLastSyncResourceVersion [roleSyncVersion env, bindingSyncVersion env]]))))"
  by (rule exI [of _ "pass_tick env gmc Idle s"])
    (simp add: tick_rel_def syncResources_def requests_ticks split: sum.split prod.split)

theorem pass_ticks:
  "\<exists>x. tick_rel env gmc (Idle, s) x
     \<and> ticks env gmc x (after_call (synchronize env gmc s) (\<lambda>_. Idle))"
proof -
  let ?st = "snd (SkipSynchronize (lastState (fst s)) [resourceSyncVersion env,
             unionLastSyncResourceVersion [roleSyncVersion env, bindingSyncVersion env]])"
  obtain x where x: "tick_rel env gmc (Idle, s) x"
    "ticks env gmc x (after_call (syncResources env gmc s) (\<lambda>names. AtBindings names ?st))"
    using resources_ticks by blast
  have "ticks env gmc x (after_call (synchronize env gmc s) (\<lambda>_. Idle))"
    unfolding synchronize_def Let_def case_prod_unfold
    by (intro ticks_bind [OF x(2)] ticks_bind [OF bindings_ticks])
      (use purge_ticks in \<open>simp add: case_prod_unfold\<close>)
  with x(1) show ?thesis by blast
qed

end
