(* ===== verification/Server_Steps.thy ===== *)
theory Server_Steps
  imports Server Pass_Steps
begin

text \<open>
  The running server: the ticks of the synchronisation goroutines that the hooks start,
  interleaved with requests, with whatever the watches do, and with the changes of the hub.
  Invariants by rule induction: who is listed was granted access on a hub that some tick
  read, and the cache of cluster sets never changes.
\<close>

section \<open>A pass of each cache\<close>

text \<open>What the informers hold when a pass, or a tick of it, reads them.\<close>

record hub =
  hub_clusters :: "managed_cluster lister"
  hub_clustersets :: "managed_cluster_set lister"
  hub_roles :: "cluster_role lister"
  hub_bindings :: "cluster_role_binding lister"
  hub_resourceVersion :: string
  hub_roleVersion :: string
  hub_bindingVersion :: string

record map_orders =
  mo_records :: "review_record list \<Rightarrow> review_record list"
  mo_names :: "string list \<Rightarrow> string list"

definition fair_orders :: "map_orders \<Rightarrow> bool" where
  "fair_orders mo \<longleftrightarrow> range_order (mo_records mo) \<and> range_order (mo_names mo)"

definition hub_evaluator :: "hub \<Rightarrow> subject_access_evaluator" where
  "hub_evaluator hub = server_evaluator (hub_roles hub) (hub_bindings hub)"

definition hub_env :: "review_request list result \<Rightarrow> hub \<Rightarrow> map_orders \<Rightarrow> sync_env" where
  "hub_env requests hub mo =
     \<lparr>syncRequests = requests, clusterroleLister = hub_roles hub,
      clusterrolebindingLister = hub_bindings hub, reviewer = Review (hub_evaluator hub),
      resourceSyncVersion = hub_resourceVersion hub, roleSyncVersion = hub_roleVersion hub,
      bindingSyncVersion = hub_bindingVersion hub,
      record_order = mo_records mo, name_order = mo_names mo\<rparr>"

definition cluster_env :: "hub \<Rightarrow> map_orders \<Rightarrow> sync_env" where
  "cluster_env hub = hub_env (ClusterCache_ListResources (hub_clusters hub)) hub"

definition clusterset_env :: "hub \<Rightarrow> map_orders \<Rightarrow> sync_env" where
  "clusterset_env hub = hub_env (ClusterSetCache_ListResources (hub_clustersets hub)) hub"

definition ClusterCache_synchronize ::
  "hub \<Rightarrow> map_orders \<Rightarrow> watch_heap sys \<Rightarrow> (unit, watch_heap sys) run" where
  "ClusterCache_synchronize hub mo s =
     synchronize (cluster_env hub mo)
       (GroupMembershipChanged (ClusterCache_watchable (mo_names mo) (fst s) (hub_clusters hub))) s"

definition ClusterSetCache_synchronize ::
  "hub \<Rightarrow> map_orders \<Rightarrow> watch_heap sys \<Rightarrow> (unit, watch_heap sys) run" where
  "ClusterSetCache_synchronize hub mo s =
     synchronize (clusterset_env hub mo)
       (GroupMembershipChanged (ClusterSetCache_watchable (mo_names mo) (fst s) (hub_clustersets hub))) s"

text \<open>The same passes in ticks; each tick reads the hub of its time.\<close>

definition ClusterCache_tick ::
  "hub \<Rightarrow> map_orders \<Rightarrow> pass_pc \<Rightarrow> watch_heap sys \<Rightarrow> pass_pc \<times> watch_heap sys" where
  "ClusterCache_tick hub mo pc s =
     pass_tick (cluster_env hub mo)
       (GroupMembershipChanged (ClusterCache_watchable (mo_names mo) (fst s) (hub_clusters hub))) pc s"

definition ClusterSetCache_tick ::
  "hub \<Rightarrow> map_orders \<Rightarrow> pass_pc \<Rightarrow> watch_heap sys \<Rightarrow> pass_pc \<times> watch_heap sys" where
  "ClusterSetCache_tick hub mo pc s =
     pass_tick (clusterset_env hub mo)
       (GroupMembershipChanged (ClusterSetCache_watchable (mo_names mo) (fst s) (hub_clustersets hub))) pc s"

text \<open>What an informer guarantees: an object is served under its own name.\<close>

definition hub_ok :: "hub \<Rightarrow> bool" where
  "hub_ok hub \<longleftrightarrow>
     (\<forall>n c. lister_Get (hub_clusters hub) n = Inr c \<longrightarrow> ClusterName c = n)
     \<and> (\<forall>n c. lister_Get (hub_clustersets hub) n = Inr c \<longrightarrow> ClusterSetName c = n)"

section \<open>Steps\<close>

record server_state =
  sv_clusters :: "watch_heap sys"
  sv_clustersets :: "watch_heap sys"
  sv_clusters_pc :: pass_pc       \<comment> \<open>where the goroutine of the passes is\<close>
  sv_clustersets_pc :: pass_pc
  sv_history :: "hub list"        \<comment> \<open>the hubs that ticks of the cluster passes have read\<close>

definition server_start :: "filter_server \<Rightarrow> server_state" where
  "server_start fs =
     \<lparr>sv_clusters = (fs_clusterCache fs, fmempty), sv_clustersets = (fs_clustersetCache fs, fmempty),
      sv_clusters_pc = Idle, sv_clustersets_pc = Idle, sv_history = []\<rparr>"

inductive server_step :: "filter_server \<Rightarrow> server_state \<Rightarrow> server_state \<Rightarrow> bool" for fs where
  cluster_tick: "GoClusterCacheRun period \<in> started fs \<Longrightarrow> sv_clusters_pc sv \<noteq> Stuck \<Longrightarrow> hub_ok hub
    \<Longrightarrow> fair_orders mo \<Longrightarrow> ClusterCache_tick hub mo (sv_clusters_pc sv) (sv_clusters sv) = (pc, s') \<Longrightarrow>
    server_step fs sv (sv\<lparr>sv_clusters := s', sv_clusters_pc := pc, sv_history := hub # sv_history sv\<rparr>)"
| clusterset_tick: "GoClusterSetCacheRun period \<in> started fs \<Longrightarrow> sv_clustersets_pc sv \<noteq> Stuck \<Longrightarrow> hub_ok hub
    \<Longrightarrow> fair_orders mo \<Longrightarrow> ClusterSetCache_tick hub mo (sv_clustersets_pc sv) (sv_clustersets sv) = (pc, s') \<Longrightarrow>
    server_step fs sv (sv\<lparr>sv_clustersets := s', sv_clustersets_pc := pc\<rparr>)"
| cluster_watch: "ClusterREST_Watch rest ord w ctx options (sv_clusters sv) = Done r s' \<Longrightarrow>
    server_step fs sv (sv\<lparr>sv_clusters := s'\<rparr>)"
| clusterset_watch: "ClusterSetREST_Watch rest' ord w ctx options (sv_clustersets sv) = Done r s' \<Longrightarrow>
    server_step fs sv (sv\<lparr>sv_clustersets := s'\<rparr>)"
| cluster_client: "same_caches (fst (sv_clusters sv)) s' \<Longrightarrow>
    server_step fs sv (sv\<lparr>sv_clusters := s'\<rparr>)"
| clusterset_client: "same_caches (fst (sv_clustersets sv)) s' \<Longrightarrow>
    server_step fs sv (sv\<lparr>sv_clustersets := s'\<rparr>)"

inductive server_reach :: "filter_server \<Rightarrow> server_state \<Rightarrow> bool" for fs where
  server_reach_start: "server_reach fs (server_start fs)"
| server_reach_step: "server_reach fs sv \<Longrightarrow> server_step fs sv sv' \<Longrightarrow> server_reach fs sv'"

section \<open>Who is listed was granted access\<close>

definition hub_lists :: "hub \<Rightarrow> user_info \<Rightarrow> string \<Rightarrow> bool" where
  "hub_lists hub u n \<longleftrightarrow>
     may_get_user (hub_evaluator hub) cluster_group ''managedclusters'' n (user_Name u)
     \<or> (\<exists>g \<in> set (user_Groups u).
          may_get_group (hub_evaluator hub) cluster_group ''managedclusters'' n g)"

definition record_granted :: "hub list \<Rightarrow> string \<Rightarrow> review_record \<Rightarrow> bool" where
  "record_granted hubs n r \<longleftrightarrow>
     (\<exists>hub \<in> set hubs.
        (\<forall>u \<in> set (rr_users r). may_get_user (hub_evaluator hub) cluster_group ''managedclusters'' n u)
        \<and> (\<forall>g \<in> set (rr_groups r). may_get_group (hub_evaluator hub) cluster_group ''managedclusters'' n g))"

definition granted_inv :: "hub list \<Rightarrow> auth_cache \<Rightarrow> bool" where
  "granted_inv hubs ac \<longleftrightarrow>
     cache_inv ac \<and> ac_group ac = cluster_group \<and> ac_resource ac = ''managedclusters''
     \<and> (\<forall>n r. fmlookup (reviewRecordStore ac) n = Some r \<longrightarrow> record_granted hubs n r)"

lemma granted_inv_caches: "granted_inv hubs (caches ac) = granted_inv hubs ac"
  by (simp add: granted_inv_def)

lemma granted_inv_mono: "granted_inv hubs ac \<Longrightarrow> granted_inv (hub # hubs) ac"
  by (auto simp: granted_inv_def record_granted_def)

lemma granted_inv_step:
  assumes "granted_inv hubs ac" "hub \<in> set hubs"
  shows "granted_inv hubs (request_step (hub_env rqs hub mo) rq ac)"
proof (cases "skipped ac rq")
  case True
  with assms(1) show ?thesis by (simp add: request_step_def)
next
  case False
  obtain rv where rv: "Review (hub_evaluator hub) cluster_group ''managedclusters'' (rq_name rq) = Inr rv"
    using rbac_reviewer.answers by blast
  have step: "request_step (hub_env rqs hub mo) rq ac = apply_review rq rv ac"
    using False rv assms(1) by (simp add: request_step_def reviewed_def hub_env_def granted_inv_def)
  have "record_granted hubs (rq_name rq) (cached_record rq known rv)" for known
    using assms(2) rbac_reviewer.users_iff [OF rv] rbac_reviewer.groups_iff [OF rv]
    by (auto simp: record_granted_def)
  then show ?thesis
    unfolding step using assms(1) apply_review_inv [of ac rq rv]
    by (auto simp: granted_inv_def apply_review_def Let_def)
qed

lemma granted_inv_closed:
  assumes "hub \<in> set hubs" "range_order (mo_records mo)"
  shows "step_closed (hub_env rqs hub mo) (granted_inv hubs)"
  unfolding step_closed_def
proof (intro conjI allI impI)
  fix ac new assume inv: "granted_inv hubs ac"
  let ?rs = "store_List (record_order (hub_env rqs hub mo)) (reviewRecordStore ac)"
  have ord: "range_order (record_order (hub_env rqs hub mo))"
    using assms(2) by (simp add: hub_env_def)
  have key: "keyed_by reviewRecordKeyFn (reviewRecordStore ac)"
    using inv by (simp add: granted_inv_def cache_inv_def)
  have cinv: "cache_inv ac" using inv by (simp add: granted_inv_def)
  note purge = purge_loop_inv [OF cinv store_List_keys(1,2) [OF ord key], of new]
  have "fmlookup (reviewRecordStore ac) n = Some r"
    if "fmlookup (reviewRecordStore (purge_loop new ?rs ac)) n = Some r" for n r
    using that purge [THEN conjunct2, THEN spec, of n] by (simp split: if_splits)
  then show "granted_inv hubs (purge_loop new ?rs ac)"
    using inv purge [THEN conjunct1] unfolding granted_inv_def by simp
next
  show "granted_inv hubs (caches ac) = granted_inv hubs ac" for ac
    by (rule granted_inv_caches)
  show "granted_inv hubs (request_step (hub_env rqs hub mo) rq ac)" if "granted_inv hubs ac" for ac rq
    using granted_inv_step [OF that assms(1)] .
  show "granted_inv hubs (ac\<lparr>allKnownNames := ns, lastState := st\<rparr>)" if "granted_inv hubs ac" for ac ns st
    using that by (simp add: granted_inv_def)
qed

lemma cluster_tick_granted:
  assumes "granted_inv hubs (fst s)" "hub_ok hub" "fair_orders mo"
  shows "granted_inv (hub # hubs) (fst (snd (ClusterCache_tick hub mo pc s)))"
proof -
  have wc: "watchable_cache (ClusterCache_watchable (mo_names mo) (fst s) (hub_clusters hub))"
    using assms(2) by (intro cluster_watchable_contract) (auto simp: hub_ok_def)
  have "step_closed (cluster_env hub mo) (granted_inv (hub # hubs))"
    using assms(3) unfolding cluster_env_def by (intro granted_inv_closed) (auto simp: fair_orders_def)
  from cache_watcher.pass_tick_closed [OF watchable_cache_watches [OF wc] this] granted_inv_mono [OF assms(1)]
  show ?thesis by (simp add: ClusterCache_tick_def)
qed

lemma granted_lists:
  assumes "granted_inv hubs ac" "n |\<in>| listNames ac u"
  shows "\<exists>hub \<in> set hubs. hub_lists hub u n"
proof -
  from assms have "view_lists (access_view ac) u n"
    by (simp add: granted_inv_def listNames_view)
  then obtain r where r: "fmlookup (reviewRecordStore ac) n = Some r"
    "user_Name u \<in> set (rr_users r) \<or> set (user_Groups u) \<inter> set (rr_groups r) \<noteq> {}"
    by (auto simp: view_lists_def access_view_def record_access_def)
  with assms(1) have "record_granted hubs n r" by (simp add: granted_inv_def)
  with r(2) show ?thesis by (auto simp: record_granted_def hub_lists_def)
qed

section \<open>The invariant of the server\<close>

definition server_inv :: "server_state \<Rightarrow> bool" where
  "server_inv sv \<longleftrightarrow>
     granted_inv (sv_history sv) (fst (sv_clusters sv))
     \<and> caches (fst (sv_clustersets sv)) = caches NewClusterSetCache"

lemma granted_inv_same:
  "same_caches ac s' \<Longrightarrow> granted_inv hubs ac \<Longrightarrow> granted_inv hubs (fst s')"
  using granted_inv_caches unfolding same_caches_def by metis

text \<open>A watch request, refused or not, leaves the caches alone.\<close>

lemma ClusterREST_Watch_frame:
  "run_all (same_caches (fst s)) (ClusterREST_Watch rest ord w ctx options s)"
  by (cases s) (simp add: ClusterREST_Watch_def AddWatcher_eq Let_def
      split: option.split sum.split prod.split)

lemma ClusterSetREST_Watch_frame:
  "run_all (same_caches (fst s)) (ClusterSetREST_Watch rest ord w ctx options s)"
  by (cases s) (simp add: ClusterSetREST_Watch_def AddWatcher_eq Let_def
      split: option.split sum.split prod.split)

lemma server_inv_start:
  "NewFilterServer ns install sch = Inr fs \<Longrightarrow> server_inv (server_start fs)"
  by (auto simp: NewFilterServer_def Let_def server_inv_def server_start_def granted_inv_def
      NewClusterCache_def NewAutchCache_def split: sum.splits option.splits)
    (auto simp: cache_inv_def index_agrees_def)

lemma server_started:
  "NewFilterServer ns install sch = Inr fs \<Longrightarrow>
     started fs = {StartInformers, StartClusterInformers, GoClusterCacheRun 1}"
  by (auto simp: NewFilterServer_def Let_def started_def split: sum.splits option.splits)

lemma server_inv_step:
  assumes "server_step fs sv sv'" "server_inv sv" "\<forall>p. GoClusterSetCacheRun p \<notin> started fs"
  shows "server_inv sv'"
  using assms
proof (induction rule: server_step.induct)
  case (cluster_tick period sv hub mo pc s')
  then show ?case
    using cluster_tick_granted [of "sv_history sv" "sv_clusters sv" hub mo "sv_clusters_pc sv"]
    by (simp add: server_inv_def)
next
  case (cluster_watch rest ord w ctx options sv r s')
  then show ?case
    using granted_inv_same [OF run_all_Done [OF ClusterREST_Watch_frame cluster_watch(1)]]
    by (simp add: server_inv_def)
next
  case (clusterset_watch rest' ord w ctx options sv r s')
  then show ?case
    using run_all_Done [OF ClusterSetREST_Watch_frame clusterset_watch(1)]
    by (simp add: server_inv_def same_caches_def)
next
  case (cluster_client sv s')
  then show ?case using granted_inv_same [OF cluster_client(1)] by (simp add: server_inv_def)
next
  case (clusterset_client sv s')
  then show ?case by (simp add: server_inv_def same_caches_def)
qed auto

lemma server_reach_inv:
  assumes "NewFilterServer ns install sch = Inr fs" "server_reach fs sv"
  shows "server_inv sv"
  using assms(2)
proof induction
  case server_reach_start
  show ?case by (rule server_inv_start [OF assms(1)])
next
  case (server_reach_step sv sv')
  have "\<forall>p. GoClusterSetCacheRun p \<notin> started fs"
    by (simp add: server_started [OF assms(1)])
  with server_reach_step show ?case by (blast intro: server_inv_step)
qed

section \<open>A pass over one hub\<close>

text \<open>
  What a notification does depends on the objects of the cache and not on the state its
  \<open>ListObjects\<close> would read, so that the ticks over one hub are the ticks of one machine.
\<close>

lemma gmc_fields_cong:
  assumes "wc_RemoveWatcher wc = wc_RemoveWatcher wc'" "wc_Get wc = wc_Get wc'"
    "wc_ConvertResource wc = wc_ConvertResource wc'"
  shows "GroupMembershipChanged wc = GroupMembershipChanged wc'"
proof -
  have "push_event wc = push_event wc'"
    by (intro ext) (simp only: push_event_def assms)
  with assms show ?thesis by (intro ext) (simp only: GroupMembershipChanged_def)
qed

lemma cluster_gmc_state:
  "GroupMembershipChanged (ClusterCache_watchable ord ac l) = GroupMembershipChanged (ClusterCache_watchable ord' ac' l)"
  by (rule gmc_fields_cong) (simp_all add: ClusterCache_watchable_def)

lemma cluster_tick_rel:
  "tick_rel (cluster_env hub mo) (GroupMembershipChanged (ClusterCache_watchable ord ac (hub_clusters hub))) x y
     \<longleftrightarrow> y = ClusterCache_tick hub mo (fst x) (snd x)"
  using cluster_gmc_state [of ord ac "hub_clusters hub" "mo_names mo" "fst (snd x)"]
  by (simp add: tick_rel_def ClusterCache_tick_def)

lemma reach_ticks:
  assumes "ticks (cluster_env hub mo) (GroupMembershipChanged (ClusterCache_watchable ord ac (hub_clusters hub))) x y"
    and "GoClusterCacheRun period \<in> started fs" "hub_ok hub" "fair_orders mo"
    and "server_reach fs (sv\<lparr>sv_clusters := snd x, sv_clusters_pc := fst x, sv_history := hs\<rparr>)"
  shows "\<exists>k. server_reach fs (sv\<lparr>sv_clusters := snd y, sv_clusters_pc := fst y, sv_history := replicate k hub @ hs\<rparr>)"
  using assms(1)
proof (induction rule: rtranclp_induct)
  case base
  show ?case using assms(5) by (intro exI [of _ 0]) simp
next
  case (step y z)
  then obtain k where reach:
    "server_reach fs (sv\<lparr>sv_clusters := snd y, sv_clusters_pc := fst y, sv_history := replicate k hub @ hs\<rparr>)"
    by blast
  have z: "ClusterCache_tick hub mo (fst y) (snd y) = (fst z, snd z)"
    using step.hyps(2) by (simp add: cluster_tick_rel)
  show ?case
  proof (cases "fst y = Stuck")
    case True
    then have "z = y" using z by (simp add: ClusterCache_tick_def prod_eq_iff)
    with reach show ?thesis by blast
  next
    case False
    from server_reach_step [OF reach cluster_tick [OF assms(2) _ assms(3,4)]] False z
    show ?thesis by (intro exI [of _ "Suc k"]) simp
  qed
qed

lemma reach_pass:
  assumes "GoClusterCacheRun period \<in> started fs" "hub_ok hub" "fair_orders mo"
    and "server_reach fs sv" "sv_clusters_pc sv = Idle"
    and "r = ClusterCache_synchronize hub mo (sv_clusters sv)"
  shows "\<exists>k. server_reach fs (sv\<lparr>sv_clusters := run_state r,
           sv_clusters_pc := (if completes r then Idle else Stuck), sv_history := replicate k hub @ sv_history sv\<rparr>)"
proof -
  let ?gmc = "GroupMembershipChanged (ClusterCache_watchable (mo_names mo) (fst (sv_clusters sv)) (hub_clusters hub))"
  obtain x where "tick_rel (cluster_env hub mo) ?gmc (Idle, sv_clusters sv) x"
    "ticks (cluster_env hub mo) ?gmc x (after_call r (\<lambda>_. Idle))"
    using pass_ticks unfolding assms(6) ClusterCache_synchronize_def by blast
  then have "ticks (cluster_env hub mo) ?gmc (Idle, sv_clusters sv) (after_call r (\<lambda>_. Idle))"
    by (rule converse_rtranclp_into_rtranclp)
  moreover have "sv\<lparr>sv_clusters_pc := Idle\<rparr> = sv" using assms(5) by simp
  ultimately show ?thesis
    using reach_ticks [OF _ assms(1-3), where sv = sv and hs = "sv_history sv"] assms(4) by (cases r) fastforce+
qed

end
