(* ===== verification/Pass_Facts.thy ===== *)
theory Pass_Facts
  imports Server_Steps
begin

text \<open>
  What a pass over the state of the hub means for the users: the listing of an up-to-date
  cache is the access relation of RBAC restricted to the clusters that exist.
\<close>

section \<open>The environment of a pass\<close>

definition hub_names :: "hub \<Rightarrow> string fset" where
  "hub_names hub =
     (case lister_List (hub_clusters hub) of
        Inl err \<Rightarrow> {||} | Inr cs \<Rightarrow> fset_of_list (map ClusterName cs))"

definition hub_access :: "hub \<Rightarrow> string \<Rightarrow> access" where
  "hub_access hub n =
     ({u. may_get_user (hub_evaluator hub) cluster_group ''managedclusters'' n u},
      {g. may_get_group (hub_evaluator hub) cluster_group ''managedclusters'' n g})"

lemma cluster_requests_loop_eq:
  "cluster_requests_loop cs reqs = reqs @ cluster_requests_loop cs []"
proof (induction cs arbitrary: reqs)
  case (Cons c cs)
  show ?case by (simp only: cluster_requests_loop.simps append.simps) (subst (1 2) Cons, simp)
qed simp

lemma cluster_requests_map:
  "cluster_requests_loop cs [] = map (\<lambda>c. \<lparr>rq_name = ClusterName c,
     rq_resourceVersion = meta_ResourceVersion (mc_Meta c),
     rq_roleUIDToResourceVersion = fmempty, rq_roleBindingUIDToResourceVersion = fmempty\<rparr>) cs"
proof (induction cs)
  case (Cons c cs)
  then show ?case by (simp add: ClusterName_def) (subst cluster_requests_loop_eq, simp add: ClusterName_def)
qed simp

lemma cluster_env_simps [simp]:
  "clusterroleLister (cluster_env hub mo) = hub_roles hub"
  "clusterrolebindingLister (cluster_env hub mo) = hub_bindings hub"
  "record_order (cluster_env hub mo) = mo_records mo"
  "name_order (cluster_env hub mo) = mo_names mo"
  "syncRequests (cluster_env hub mo) = ClusterCache_ListResources (hub_clusters hub)"
  by (simp_all add: cluster_env_def hub_env_def)

lemma cluster_env_answers [simp]: "always_answers (cluster_env hub mo)"
  using rbac_reviewer.answers by (auto simp: always_answers_def cluster_env_def hub_env_def)

lemma known_names_cluster [simp]: "known_names (cluster_env hub mo) = hub_names hub"
  by (simp add: known_names_def resource_requests_def ClusterCache_ListResources_def hub_names_def
      cluster_requests_map comp_def split: sum.split)

lemma fresh_access_cluster:
  assumes "ac_group ac = cluster_group" "ac_resource ac = ''managedclusters''"
  shows "fresh_access (cluster_env hub mo) ac n = hub_access hub n"
proof -
  obtain rv where rv: "Review (hub_evaluator hub) cluster_group ''managedclusters'' n = Inr rv"
    using rbac_reviewer.answers by blast
  then have "fresh_access (cluster_env hub mo) ac n = review_access rv"
    using assms by (simp add: fresh_access_def reviewed_def cluster_env_def hub_env_def)
  then show ?thesis
    using rbac_reviewer.users_iff [OF rv] rbac_reviewer.groups_iff [OF rv]
    by (auto simp: review_access_def hub_access_def)
qed

lemma hub_access_lists:
  "view n = Some (hub_access hub n) \<Longrightarrow> view_lists view u n \<longleftrightarrow> hub_lists hub u n"
  by (auto simp: view_lists_def hub_access_def hub_lists_def)

section \<open>Caches that are up to date\<close>

definition cluster_cache_ok :: "auth_cache \<Rightarrow> bool" where
  "cluster_cache_ok ac \<longleftrightarrow>
     cache_inv ac \<and> ac_group ac = cluster_group \<and> ac_resource ac = ''managedclusters''"

definition up_to_date :: "hub \<Rightarrow> auth_cache \<Rightarrow> bool" where
  "up_to_date hub ac \<longleftrightarrow>
     cluster_cache_ok ac
     \<and> (\<forall>n. access_view ac n = (if n |\<in>| hub_names hub then Some (hub_access hub n) else None))"

lemma cluster_cache_ok_caches [simp]: "cluster_cache_ok (caches ac) = cluster_cache_ok ac"
  by (simp add: cluster_cache_ok_def)

lemma up_to_date_caches [simp]: "up_to_date hub (caches ac) = up_to_date hub ac"
  by (simp add: up_to_date_def)

lemma cluster_cache_ok_new [simp]: "cluster_cache_ok NewClusterCache"
  by (simp add: cluster_cache_ok_def NewClusterCache_def) (simp add: NewAutchCache_def)

lemma sync_step_fields [simp]:
  "ac_group (sync_step env ac) = ac_group ac"
  "ac_resource (sync_step env ac) = ac_resource ac"
  "allKnownNames (sync_step env ac) = known_names env"
  "watchers (sync_step env ac) = watchers ac"
  "watcherLocked (sync_step env ac) = watcherLocked ac"
  by (simp_all add: sync_step_def purge_def)

lemma cluster_sync_ok:
  "cluster_cache_ok ac \<Longrightarrow> fair_orders mo \<Longrightarrow> cluster_cache_ok (sync_step (cluster_env hub mo) ac)"
  by (simp add: cluster_cache_ok_def sync_step_inv fair_orders_def)

lemma cluster_sync_view:
  assumes "cluster_cache_ok ac" "fair_orders mo"
  shows "access_view (sync_step (cluster_env hub mo) ac) n =
    (if n |\<notin>| hub_names hub then None
     else if needs_review ac (all_requests (cluster_env hub mo) ac) n then Some (hub_access hub n)
     else access_view ac n)"
  using assms
  by (simp add: sync_step_view fair_orders_def cluster_cache_ok_def sync_view_def fresh_access_cluster)

text \<open>A cache with no records reviews every name; an up-to-date one can only review again.\<close>

lemma first_pass_up_to_date:
  assumes "fair_orders mo"
  shows "up_to_date hub (sync_step (cluster_env hub mo) NewClusterCache)"
proof -
  have "needs_review NewClusterCache (all_requests (cluster_env hub mo) NewClusterCache) n"
    if "n |\<in>| hub_names hub" for n
  proof -
    have "n |\<in>| known_names (cluster_env hub mo)" using that by simp
    then obtain rq where "rq \<in> set (resource_requests (cluster_env hub mo))" "rq_name rq = n"
      by (auto simp only: known_names_def in_fset_of_list set_map)
    then show ?thesis
      by (auto simp: needs_review_def all_requests_def skipped_def NewClusterCache_def NewAutchCache_def)
  qed
  then show ?thesis
    using assms by (simp add: up_to_date_def cluster_sync_ok cluster_sync_view)
qed

lemma pass_stays_up_to_date:
  assumes "up_to_date hub ac" "fair_orders mo"
  shows "up_to_date hub (sync_step (cluster_env hub mo) ac)"
  using assms by (simp add: up_to_date_def cluster_sync_ok cluster_sync_view)

lemma up_to_date_names:
  "up_to_date hub ac \<Longrightarrow> n |\<in>| listNames ac u \<longleftrightarrow> n |\<in>| hub_names hub \<and> hub_lists hub u n"
  using hub_access_lists [of "access_view ac" n hub u]
  by (auto simp: up_to_date_def cluster_cache_ok_def listNames_view view_lists_def)

section \<open>A pass of the cluster cache\<close>

lemma ClusterCache_synchronize_Done:
  assumes "ClusterCache_synchronize hub mo s = Done u s'" "hub_ok hub"
  shows "caches (fst s') = sync_step (cluster_env hub mo) (caches (fst s))"
proof -
  have "watchable_cache (ClusterCache_watchable (mo_names mo) (fst s) (hub_clusters hub))"
    using assms(2) by (intro cluster_watchable_contract) (auto simp: hub_ok_def)
  from cache_watcher.synchronize_Done [OF watchable_cache_watches [OF this]] assms(1)
  show ?thesis by (auto simp: ClusterCache_synchronize_def)
qed

lemma ClusterCache_synchronize_room:
  assumes "\<not> watcherLocked ac" "hub_ok hub" "fair_orders mo"
    and "heap_room (notification_bound (cluster_env hub mo) ac * length (watchers ac)) heap"
  shows "\<exists>h'. ClusterCache_synchronize hub mo (ac, heap) = Done () (sync_step (cluster_env hub mo) ac, h')"
proof -
  let ?wc = "ClusterCache_watchable (mo_names mo) ac (hub_clusters hub)"
  have "watchable_cache ?wc"
    using assms(2) by (intro cluster_watchable_contract) (auto simp: hub_ok_def)
  from roomy_watcher.synchronize_room [OF watchable_cache_roomy [OF this]] assms
  show ?thesis by (auto simp: ClusterCache_synchronize_def fair_orders_def)
qed

section \<open>Listing from names\<close>

lemma ClusterCache_List_ok:
  assumes "range_order ord" "\<And>n c. lister_Get l n = Inr c \<Longrightarrow> ClusterName c = n"
    and "\<And>n e. lister_Get l n = Inl e \<Longrightarrow> IsNotFound e"
  shows "\<exists>items. ClusterCache_List ord ac l u sel = Inr items \<and> distinct items
    \<and> set items = {c. lister_Get l (ClusterName c) = Inr c \<and> ClusterName c |\<in>| listNames ac u
                      \<and> sel (meta_Labels (mc_Meta c))}"
proof -
  let ?keys = "ord (sorted_list_of_fset (listNames ac u))"
  obtain items where items: "cluster_list_loop l sel ?keys [] = Inr items"
    using clusters.loop_ok_iff [of l sel ?keys "[]"] assms(3) by blast
  have "distinct items"
    using clusters.loop_distinct [OF items, of ClusterName] assms
    by (simp add: sorted_list_of_fset.rep_eq)
  moreover have "set items = {c. lister_Get l (ClusterName c) = Inr c \<and> ClusterName c |\<in>| listNames ac u
      \<and> sel (meta_Labels (mc_Meta c))}"
    using clusters.loop_set [OF items] assms(1,2) by (auto simp: sorted_list_of_fset.rep_eq)
  ultimately show ?thesis using items by (simp add: ClusterCache_List_def)
qed

section \<open>When a review happens\<close>

lemma needs_review_binding:
  assumes "lister_List (clusterrolebindingLister env) = Inr bs" "b \<in> set bs"
    and "lister_Get (clusterroleLister env) (ref_Name (binding_RoleRef b)) = Inr cr"
    and "n |\<in>| role_resources ac cr" "\<not> skipped ac (binding_request b cr n)"
  shows "needs_review ac (all_requests env ac) n"
proof -
  have "binding_request b cr n \<in> set (binding_requests env ac)"
    using assms(1-4)
    by (force simp: binding_requests_def requests_of_binding_def sorted_list_of_fset.rep_eq)
  with assms(5) show ?thesis
    unfolding needs_review_def all_requests_def by (force simp: binding_request_def)
qed

lemma role_resources_caches [simp]: "role_resources (caches ac) cr = role_resources ac cr"
  by (simp add: role_resources_def split: prod.split)

text \<open>The requests of a pass do not depend on the orders of the map ranges.\<close>

lemma all_requests_order:
  "all_requests (cluster_env hub mo) ac = all_requests (cluster_env hub mo') ac"
proof -
  have "requests_of_binding (cluster_env hub mo) ac = requests_of_binding (cluster_env hub mo') ac"
    by (intro ext) (simp add: requests_of_binding_def)
  then show ?thesis
    by (simp add: all_requests_def resource_requests_def binding_requests_def split: sum.split)
qed

lemma binding_not_skipped:
  "skipped ac (binding_request b cr n) \<longleftrightarrow>
     (\<exists>r. fmlookup (reviewRecordStore ac) n = Some r \<and> rq_name (rr_request r) = n
        \<and> fmlookup (rq_roleBindingUIDToResourceVersion (rr_request r)) (binding_UID b)
            = Some (binding_ResourceVersion b)
        \<and> fmlookup (rq_roleUIDToResourceVersion (rr_request r)) (role_UID cr)
            = Some (role_ResourceVersion cr))"
  by (cases "fmlookup (reviewRecordStore ac) n")
    (auto simp: skipped_def binding_request_def skipReview_iff fmsubset_alt_def fmpred_iff)

lemma needs_review_cluster:
  assumes "syncRequests env = ClusterCache_ListResources l" "lister_List l = Inr cs" "c \<in> set cs"
    and "\<And>r. fmlookup (reviewRecordStore ac) (ClusterName c) = Some r \<Longrightarrow>
           meta_ResourceVersion (mc_Meta c) \<noteq> []
           \<and> rq_resourceVersion (rr_request r) \<noteq> meta_ResourceVersion (mc_Meta c)"
  shows "needs_review ac (all_requests env ac) (ClusterName c)"
proof -
  let ?rq = "\<lparr>rq_name = ClusterName c, rq_resourceVersion = meta_ResourceVersion (mc_Meta c),
     rq_roleUIDToResourceVersion = fmempty, rq_roleBindingUIDToResourceVersion = fmempty\<rparr>"
  have "?rq \<in> set (all_requests env ac)"
    using assms(1-3)
    by (auto simp: all_requests_def resource_requests_def ClusterCache_ListResources_def cluster_requests_map)
  moreover have "\<not> skipped ac ?rq"
    using assms(4) by (cases "fmlookup (reviewRecordStore ac) (ClusterName c)")
      (auto simp: skipped_def skipReview_iff)
  ultimately show ?thesis unfolding needs_review_def by (intro bexI [of _ ?rq]) simp_all
qed

section \<open>What a returned pass leaves behind\<close>

lemma pass_ok:
  assumes "hub_ok hub" "fair_orders mo" "cluster_cache_ok (fst s)"
    and "ClusterCache_synchronize hub mo s = Done () s'"
  shows "cluster_cache_ok (fst s')"
proof -
  have "cluster_cache_ok (caches (fst s'))"
    unfolding ClusterCache_synchronize_Done [OF assms(4,1)] using assms(2,3) by (simp add: cluster_sync_ok)
  then show ?thesis by simp
qed

lemma pass_view:
  assumes "hub_ok hub" "fair_orders mo" "cluster_cache_ok (fst s)"
    and "ClusterCache_synchronize hub mo s = Done () s'"
  shows "access_view (fst s') n =
    (if n |\<notin>| hub_names hub then None
     else if needs_review (caches (fst s)) (all_requests (cluster_env hub mo) (caches (fst s))) n
     then Some (hub_access hub n) else access_view (fst s) n)"
proof -
  have "access_view (caches (fst s')) n = access_view (sync_step (cluster_env hub mo) (caches (fst s))) n"
    using ClusterCache_synchronize_Done [OF assms(4,1)] by simp
  then show ?thesis using assms(2,3) by (simp add: cluster_sync_view)
qed

lemma pass_lists_view:
  assumes "hub_ok hub" "fair_orders mo" "cluster_cache_ok (fst s)"
    and "ClusterCache_synchronize hub mo s = Done () s'"
  shows "n |\<in>| listNames (fst s') u \<longleftrightarrow> view_lists (access_view (fst s')) u n"
  using pass_ok [OF assms] by (simp add: cluster_cache_ok_def listNames_view)

lemma reviewed_name_lists:
  assumes "hub_ok hub" "fair_orders mo" "cluster_cache_ok (fst s)"
    and "ClusterCache_synchronize hub mo s = Done () s'" "n |\<in>| hub_names hub"
    and "needs_review (caches (fst s)) (all_requests (cluster_env hub mo) (caches (fst s))) n"
  shows "n |\<in>| listNames (fst s') u \<longleftrightarrow> hub_lists hub u n"
  using pass_lists_view [OF assms(1-4)] pass_view [OF assms(1-4), of n] assms(5,6)
    hub_access_lists [of "access_view (fst s')" n hub u] by simp

end
