(* ===== verification/Sample_Hub.thy ===== *)
theory Sample_Hub
  imports Pass_Facts
begin

text \<open>
  A small hub for the concrete instances of the properties: two clusters, a role that lets
  its subjects get \<open>c1\<close>, one that lets them get every cluster, a user \<open>alice\<close> bound to the
  first and a group \<open>ops\<close> bound to the second.
\<close>

definition sample_cluster :: "string \<Rightarrow> string \<Rightarrow> managed_cluster" where
  "sample_cluster n v =
     \<lparr>mc_Meta = \<lparr>meta_Name = n, meta_ResourceVersion = v, meta_Labels = fmempty\<rparr>, mc_Body = []\<rparr>"

definition c1 :: managed_cluster where "c1 = sample_cluster ''c1'' ''1''"
definition c2 :: managed_cluster where "c2 = sample_cluster ''c2'' ''1''"

definition get_rule :: "string list \<Rightarrow> policy_rule" where
  "get_rule names = \<lparr>Verbs = [''get''], APIGroups = [''cluster.open-cluster-management.io''],
     Resources = [''managedclusters''], ResourceNames = names, NonResourceURLs = []\<rparr>"

definition c1_viewer :: cluster_role where
  "c1_viewer = \<lparr>role_Name = ''c1-viewer'', role_UID = ''r1'', role_ResourceVersion = ''1'',
     role_Rules = [get_rule [''c1'']]\<rparr>"

definition fleet_viewer :: cluster_role where
  "fleet_viewer = \<lparr>role_Name = ''fleet-viewer'', role_UID = ''r2'', role_ResourceVersion = ''1'',
     role_Rules = [get_rule []]\<rparr>"

definition namespace_getter :: cluster_role where
  "namespace_getter = \<lparr>role_Name = ''ns'', role_UID = ''r3'', role_ResourceVersion = ''1'',
     role_Rules = [\<lparr>Verbs = [''get''], APIGroups = [[]], Resources = [''namespaces''],
                    ResourceNames = [], NonResourceURLs = []\<rparr>]\<rparr>"

definition sample_binding :: "string \<Rightarrow> string \<Rightarrow> string \<Rightarrow> string \<Rightarrow> cluster_role_binding" where
  "sample_binding uid kind name role =
     \<lparr>binding_Name = uid, binding_UID = uid, binding_ResourceVersion = ''1'',
      binding_Subjects = [\<lparr>Kind = kind, APIGroup = ''rbac.authorization.k8s.io'', Name = name,
                           Namespace = []\<rparr>],
      binding_RoleRef = \<lparr>ref_APIGroup = ''rbac.authorization.k8s.io'', ref_Kind = ''ClusterRole'',
                         ref_Name = role\<rparr>\<rparr>"

definition alice_binding :: cluster_role_binding where
  "alice_binding = sample_binding ''b1'' ''User'' ''alice'' ''c1-viewer''"

definition ops_binding :: cluster_role_binding where
  "ops_binding = sample_binding ''b2'' ''Group'' ''ops'' ''fleet-viewer''"

definition carol_binding :: cluster_role_binding where
  "carol_binding = sample_binding ''b3'' ''User'' ''carol'' ''c1-viewer''"

definition role_lister :: "cluster_role list \<Rightarrow> cluster_role lister" where
  "role_lister rs = indexer_lister ''clusterrole'' id (file_objects role_Name rs)"

definition binding_lister :: "cluster_role_binding list \<Rightarrow> cluster_role_binding lister" where
  "binding_lister bs = indexer_lister ''clusterrolebinding'' id (file_objects binding_Name bs)"

definition sample_hub :: "managed_cluster list \<Rightarrow> cluster_role_binding list \<Rightarrow> hub" where
  "sample_hub cs bs =
     \<lparr>hub_clusters = clusterInformer_lister id cs,
      hub_clustersets = clustersetInformer_lister id [],
      hub_roles = role_lister [c1_viewer, fleet_viewer, namespace_getter],
      hub_bindings = binding_lister bs,
      hub_resourceVersion = ''1'', hub_roleVersion = ''1'', hub_bindingVersion = ''1''\<rparr>"

definition sample_orders :: map_orders where
  "sample_orders = \<lparr>mo_records = id, mo_names = id\<rparr>"

definition sample_user :: "string \<Rightarrow> string list \<Rightarrow> user_info" where
  "sample_user name groups = \<lparr>user_Name = name, user_Groups = groups, user_Extra = fmempty\<rparr>"

definition alice :: user_info where "alice = sample_user ''alice'' []"
definition carol :: user_info where "carol = sample_user ''carol'' []"
definition bob :: user_info where "bob = sample_user ''bob'' [''ops'']"

definition sample_rest :: "managed_cluster list \<Rightarrow> cluster_rest" where
  "sample_rest cs =
     \<lparr>cr_client_Get = (\<lambda>ctx n opts. lister_Get (clusterInformer_lister id cs) n),
      cr_Lister = clusterInformer_lister id cs, cr_RoleLister = role_lister [c1_viewer, fleet_viewer, namespace_getter]\<rparr>"

text \<open>The state after one pass over the hub with both clusters and both bindings.\<close>

definition sample_state :: "watch_heap sys" where
  "sample_state = run_state (ClusterCache_synchronize (sample_hub [c1, c2] [alice_binding, ops_binding])
                    sample_orders (NewClusterCache, fmempty))"

lemma sample_orders_fair [simp]: "fair_orders sample_orders"
  by (simp add: fair_orders_def sample_orders_def)

lemma sample_hub_ok [simp]: "hub_ok (sample_hub cs bs)"
  by (auto simp: hub_ok_def sample_hub_def clusterInformer_lister_def clustersetInformer_lister_def
      dest: filed.get_name)

lemma sample_hub_simps [simp]:
  "hub_clusters (sample_hub cs bs) = clusterInformer_lister id cs"
  "cr_Lister (sample_rest cs) = clusterInformer_lister id cs"
  by (simp_all add: sample_hub_def sample_rest_def)

lemma clusterInformer_contract:
  "lister_contract ClusterName (lister_List (clusterInformer_lister id cs))
     (lister_Get (clusterInformer_lister id cs))"
  by (simp add: clusterInformer_lister_def filed.lister_contract_axioms)

lemma clusterInformer_errors: "lister_Get (clusterInformer_lister o' cs) n = Inl e \<Longrightarrow> IsNotFound e"
  by (auto simp: clusterInformer_lister_def indexer_Get_def split: option.splits)

lemma sample_list [simp]: "lister_List (clusterInformer_lister id [c1, c2]) = Inr [c1, c2]"
  by code_simp

lemmas sample_contract = clusterInformer_contract [of "[c1, c2]", unfolded sample_list]

text \<open>The access relation, evaluated by a review.\<close>

lemma hub_lists_review [code]:
  "hub_lists hub u n =
     (case Review (hub_evaluator hub) cluster_group ''managedclusters'' n of
        Inl err \<Rightarrow> False
      | Inr rv \<Rightarrow> user_Name u \<in> set (review_Users rv)
          \<or> list_ex (\<lambda>g. g \<in> set (review_Groups rv)) (user_Groups u))"
proof -
  obtain rv where rv: "Review (hub_evaluator hub) cluster_group ''managedclusters'' n = Inr rv"
    using rbac_reviewer.answers by blast
  then show ?thesis
    by (simp add: hub_lists_def list_ex_iff rbac_reviewer.users_iff [OF rv] rbac_reviewer.groups_iff [OF rv])
qed

lemma sample_access:
  "hub_lists (sample_hub [c1, c2] [alice_binding, ops_binding]) alice ''c1''"
  "\<not> hub_lists (sample_hub [c1, c2] [alice_binding, ops_binding]) alice ''c2''"
  "hub_lists (sample_hub [c1, c2] [alice_binding, ops_binding]) bob ''c2''"
  "\<not> hub_lists (sample_hub [c1, c2] [ops_binding]) alice ''c1''"
  by code_simp+
abbreviation full_hub :: hub where
  "full_hub \<equiv> sample_hub [c1, c2] [alice_binding, ops_binding]"

text \<open>No watch is registered, so that every pass returns.\<close>

lemma sample_pass:
  "hub_ok hub \<Longrightarrow> fair_orders mo \<Longrightarrow> watchers ac = [] \<Longrightarrow> \<not> watcherLocked ac \<Longrightarrow>
     \<exists>h'. ClusterCache_synchronize hub mo (ac, fmempty) = Done () (sync_step (cluster_env hub mo) ac, h')"
  by (rule ClusterCache_synchronize_room) (simp_all add: heap_room_def)

lemma sample_state_pair: "sample_state = (sync_step (cluster_env full_hub sample_orders) NewClusterCache, fmempty)"
proof -
  have "snd sample_state = fmempty" by code_simp
  moreover have "watchers NewClusterCache = []" "\<not> watcherLocked NewClusterCache"
    by (simp_all add: NewClusterCache_def NewAutchCache_def)
  ultimately show ?thesis
    using sample_pass [of full_hub sample_orders NewClusterCache] by (auto simp: sample_state_def)
qed

lemma sample_state_facts:
  "up_to_date full_hub (fst sample_state)" "cluster_cache_ok (fst sample_state)"
  "cache_inv (fst sample_state)"
  "watchers (fst sample_state) = []" "\<not> watcherLocked (fst sample_state)"
  "snd sample_state = fmempty" "sample_state = (fst sample_state, fmempty)"
  using first_pass_up_to_date [OF sample_orders_fair, of full_hub]
  by (simp_all add: sample_state_pair up_to_date_def cluster_cache_ok_def)
    (simp_all add: NewClusterCache_def NewAutchCache_def)

lemma sample_second_pass:
  assumes "hub_ok hub" "fair_orders mo"
  obtains s' where "ClusterCache_synchronize hub mo sample_state = Done () s'"
  using sample_pass [OF assms, of "fst sample_state"] sample_state_facts by metis

text \<open>A watch of \<open>alice\<close> on \<open>c1\<close>, and a lister that fails.\<close>

definition sample_watch :: watch where
  "sample_watch = NewCacheWatcher alice {|''c1''|}
     (ClusterCache_watchable id (fst sample_state) (clusterInformer_lister id [c1, c2])) False"

definition failing_lister :: "'a lister" where
  "failing_lister = \<lparr>lister_List = Inl (ErrorText ''down''), lister_Get = (\<lambda>n. Inl (ErrorText ''down''))\<rparr>"

text \<open>
  Watch requests: \<open>alice\<close> with a token whose scope is the role \<open>ns\<close> in the namespace \<open>c1\<close>, and
  without scopes; both ask for the existing resources.
\<close>

definition scoped_alice :: user_info where
  "scoped_alice = alice\<lparr>user_Extra := fmupd ScopesKey [''role:ns:c1''] fmempty\<rparr>"

definition from_zero :: list_options where
  "from_zero = \<lparr>opt_LabelSelector = None, opt_FieldSelector = None, opt_ResourceVersion = ''0''\<rparr>"

definition watch_request :: "user_info \<Rightarrow> ((watcher_id \<times> goroutine) result, watch_heap sys) run" where
  "watch_request user = ClusterREST_Watch (sample_rest [c1, c2]) id 7 (Some (Some user)) (Some from_zero) sample_state"

definition accepted :: "('e + 'a, 's) run \<Rightarrow> bool" where
  "accepted r = (case r of Done (Inr x) s \<Rightarrow> True | _ \<Rightarrow> False)"

lemma acceptedE: "accepted r \<Longrightarrow> (\<And>x s. r = Done (Inr x) s \<Longrightarrow> run_state r = s \<Longrightarrow> P) \<Longrightarrow> P"
  by (auto simp: accepted_def split: run.splits sum.splits)

lemma scoped_request_accepted: "accepted (watch_request scoped_alice)"
  by code_simp

lemma plain_request_accepted: "accepted (watch_request alice)"
  by code_simp

lemma watch_request_ok:
  assumes "accepted (watch_request user)"
  obtains r s0 where "ClusterREST_Watch (sample_rest [c1, c2]) id 7 (Some (Some user)) (Some from_zero) sample_state
    = Done (Inr r) s0" "run_state (watch_request user) = s0"
  by (rule acceptedE [OF assms]) (auto simp: watch_request_def intro: that)

lemma sample_rest_name: "lister_Get (cr_Lister (sample_rest [c1, c2])) n = Inr c \<Longrightarrow> ClusterName c = n"
  by (auto simp: clusterInformer_lister_def dest: filed.get_name)

text \<open>Both requests are admissible where the properties of watches ask for it.\<close>

lemma sample_fresh: "7 \<notin> set (watchers (fst sample_state))"
  by (simp add: sample_state_facts(4))

lemma sample_reach: "watch_reach w s0 ((fst s0, snd s0), watch_start)"
  by (simp add: reach_start)

text \<open>A watch whose channel is full.\<close>

definition full_watch :: watch where
  "full_watch = sample_watch\<lparr>cacheIncoming := replicate 1000
     \<lparr>ev_Type = Added, ev_Object = Item (ManagedCluster c1)\<rparr>\<rparr>"

end
