(* ===== verification/Props_Pass.thy ===== *)
theory Props_Pass
  imports Sample_Hub
begin

text \<open>
  Properties of the synchronisation pass and of the listings it supports.
\<close>

text \<open>C1: after the first pass over a hub, listing through the REST storage returns exactly the
  clusters that exist, that match the label selector and that RBAC lets the user get, each
  once. The pass returns.\<close>

theorem first_pass_lists:
  assumes "hub_ok hub" "fair_orders mo" "range_order ord"
    and "lister_contract ClusterName (lister_List (hub_clusters hub)) (lister_Get (hub_clusters hub))"
    and "\<And>n e. lister_Get (hub_clusters hub) n = Inl e \<Longrightarrow> IsNotFound e"
    and "lister_List (hub_clusters hub) = Inr cs" "cr_Lister rest = hub_clusters hub"
  shows "\<exists>s' items.
     ClusterCache_synchronize hub mo (NewClusterCache, fmempty) = Done () s'
     \<and> ClusterREST_List rest ord (Some u) options s' = Inr (ManagedClusterList items)
     \<and> distinct items
     \<and> set items = {c \<in> set cs. hub_lists hub u (ClusterName c)
                      \<and> fst (InternalListOptionsToSelectors options) (meta_Labels (mc_Meta c))}"
proof -
  let ?ac = "sync_step (cluster_env hub mo) NewClusterCache"
  have "\<exists>h'. ClusterCache_synchronize hub mo (NewClusterCache, fmempty) = Done () (?ac, h')"
    using assms(1,2)
    by (intro ClusterCache_synchronize_room) (simp_all add: NewClusterCache_def NewAutchCache_def heap_room_def)
  then obtain h' where pass: "ClusterCache_synchronize hub mo (NewClusterCache, fmempty) = Done () (?ac, h')" ..
  let ?sel = "fst (InternalListOptionsToSelectors options)"
  have names: "lister_Get (hub_clusters hub) n = Inr c \<Longrightarrow> ClusterName c = n" for n c
    using assms(1) by (simp add: hub_ok_def)
  obtain items where items: "ClusterCache_List ord ?ac (hub_clusters hub) u ?sel = Inr items" "distinct items"
    "set items = {c. lister_Get (hub_clusters hub) (ClusterName c) = Inr c
       \<and> ClusterName c |\<in>| listNames ?ac u \<and> ?sel (meta_Labels (mc_Meta c))}"
    using ClusterCache_List_ok [of ord "hub_clusters hub" ?ac u ?sel] assms(3,5) names by blast
  have "ClusterName c |\<in>| listNames ?ac u \<longleftrightarrow> ClusterName c |\<in>| hub_names hub \<and> hub_lists hub u (ClusterName c)" for c
    by (rule up_to_date_names [OF first_pass_up_to_date [OF assms(2)]])
  moreover have "lister_Get (hub_clusters hub) (ClusterName c) = Inr c \<longleftrightarrow> c \<in> set cs" for c
    using lister_contract.in_list_iff [OF assms(4,6)] by blast
  ultimately have "set items = {c \<in> set cs. hub_lists hub u (ClusterName c) \<and> ?sel (meta_Labels (mc_Meta c))}"
    using items(3) assms(6) by (auto simp: hub_names_def)
  with pass items show ?thesis
    by (auto simp: ClusterREST_List_def assms(7) split: prod.split)
qed

theorem first_pass_lists_witness:
  "\<exists>s' items.
     ClusterCache_synchronize full_hub sample_orders
       (NewClusterCache, fmempty) = Done () s'
     \<and> ClusterREST_List (sample_rest [c1, c2]) rev (Some alice) None s' = Inr (ManagedClusterList items)
     \<and> distinct items \<and> set items = {c1}"
proof -
  have "{c \<in> set [c1, c2]. hub_lists full_hub alice (ClusterName c)
      \<and> fst (InternalListOptionsToSelectors None) (meta_Labels (mc_Meta c))} = {c1}"
    using sample_access by (auto simp: InternalListOptionsToSelectors_def c1_def c2_def
        sample_cluster_def ClusterName_def)
  moreover have "\<exists>s' items.
     ClusterCache_synchronize full_hub sample_orders (NewClusterCache, fmempty) = Done () s'
     \<and> ClusterREST_List (sample_rest [c1, c2]) rev (Some alice) None s' = Inr (ManagedClusterList items)
     \<and> distinct items
     \<and> set items = {c \<in> set [c1, c2]. hub_lists full_hub alice (ClusterName c)
          \<and> fst (InternalListOptionsToSelectors None) (meta_Labels (mc_Meta c))}"
    by (rule first_pass_lists) (use sample_contract clusterInformer_errors in simp_all)
  ultimately show ?thesis by simp
qed

text \<open>C3: a pass that returns refines the specification \<open>sync_view\<close> on the access view, whatever
  the watches do meanwhile: names that are gone have no entry, names with a request that
  their record does not cover get the access of a new review, and the others keep theirs.\<close>

theorem pass_refines_view:
  assumes "watchable_cache wc" "cache_inv (fst s)" "range_order (record_order env)" "always_answers env"
    and "synchronize env (GroupMembershipChanged wc) s = Done u s'"
  shows "cache_inv (fst s') \<and> access_view (fst s') = sync_view env (caches (fst s))"
proof -
  have eq: "caches (fst s') = sync_step env (caches (fst s))"
    using cache_watcher.synchronize_Done [OF watchable_cache_watches [OF assms(1)] assms(5)] .
  have "cache_inv (caches (fst s'))"
    unfolding eq using assms by (simp add: sync_step_inv)
  moreover have "access_view (caches (fst s')) n = sync_view env (caches (fst s)) n" for n
    unfolding eq using assms by (simp add: sync_step_view)
  ultimately show ?thesis by (simp add: fun_eq_iff)
qed

theorem pass_refines_view_witness:
  "\<exists>s'. ClusterCache_synchronize (sample_hub [c1] [ops_binding]) sample_orders sample_state = Done () s'
     \<and> access_view (fst s') =
         sync_view (cluster_env (sample_hub [c1] [ops_binding]) sample_orders) (caches (fst sample_state))"
proof -
  obtain s' where s': "ClusterCache_synchronize (sample_hub [c1] [ops_binding]) sample_orders sample_state = Done () s'"
    by (rule sample_second_pass [OF sample_hub_ok sample_orders_fair])
  have "range_order (record_order (cluster_env (sample_hub [c1] [ops_binding]) sample_orders))"
    by (simp add: sample_orders_def)
  from pass_refines_view [OF cluster_watches.watchable_cache_axioms sample_state_facts(3) this
      cluster_env_answers s' [unfolded ClusterCache_synchronize_def sample_hub_simps]]
  show ?thesis using s' by blast
qed

text \<open>C4: in every state a pass can reach, returned or stuck on a mutex, the two subject indexes
  list exactly the names whose review record mentions the subject, with no empty entries.\<close>

theorem pass_keeps_index:
  assumes "watchable_cache wc" "cache_inv (fst s)" "range_order (record_order env)"
  shows "cache_inv (fst (run_state (synchronize env (GroupMembershipChanged wc) s)))"
  using cache_watcher.synchronize_inv [OF watchable_cache_watches [OF assms(1)] _ assms(3), of s] assms(2)
  by (simp add: run_all_state sys_inv_def)

theorem pass_keeps_index_witness:
  "cache_inv (fst (run_state (ClusterCache_synchronize full_hub sample_orders sample_state)))"
  using pass_keeps_index [OF cluster_watches.watchable_cache_axioms sample_state_facts(3)]
  by (simp add: ClusterCache_synchronize_def sample_orders_def)

text \<open>C6: a binding whose role resolves takes effect in the next pass, for every user and every
  known cluster the role covers, as soon as the record of the cluster has not seen the
  current version of the binding or of its role.\<close>

theorem binding_change_takes_effect:
  assumes "hub_ok hub" "fair_orders mo" "cluster_cache_ok (fst s)"
    and "ClusterCache_synchronize hub mo s = Done () s'"
    and "lister_List (hub_bindings hub) = Inr bs" "b \<in> set bs"
    and "lister_Get (hub_roles hub) (ref_Name (binding_RoleRef b)) = Inr cr"
    and "n |\<in>| role_resources (fst s) cr" "n |\<in>| hub_names hub"
    and "\<And>r. fmlookup (reviewRecordStore (fst s)) n = Some r \<Longrightarrow>
           fmlookup (rq_roleBindingUIDToResourceVersion (rr_request r)) (binding_UID b)
             \<noteq> Some (binding_ResourceVersion b)
           \<or> fmlookup (rq_roleUIDToResourceVersion (rr_request r)) (role_UID cr)
             \<noteq> Some (role_ResourceVersion cr)"
  shows "n |\<in>| listNames (fst s') u \<longleftrightarrow> hub_lists hub u n"
proof -
  let ?ac = "caches (fst s)"
  have "\<not> skipped ?ac (binding_request b cr n)"
    using assms(10) by (auto simp: binding_not_skipped)
  moreover have "n |\<in>| role_resources ?ac cr"
    using assms(8) by simp
  ultimately have "needs_review ?ac (all_requests (cluster_env hub mo) ?ac) n"
    using assms(5-7) by (intro needs_review_binding) simp_all
  with assms show ?thesis by (intro reviewed_name_lists) simp_all
qed

theorem binding_change_takes_effect_witness:
  "\<exists>s'. ClusterCache_synchronize (sample_hub [c1, c2] [alice_binding, carol_binding]) sample_orders
         sample_state = Done () s'
     \<and> ''c1'' |\<in>| listNames (fst s') carol"
proof -
  let ?hub = "sample_hub [c1, c2] [alice_binding, carol_binding]"
  obtain s' where s': "ClusterCache_synchronize ?hub sample_orders sample_state = Done () s'"
    by (rule sample_second_pass [OF sample_hub_ok sample_orders_fair])
  have new: "case fmlookup (reviewRecordStore (fst sample_state)) ''c1'' of None \<Rightarrow> True
      | Some r \<Rightarrow> fmlookup (rq_roleBindingUIDToResourceVersion (rr_request r)) ''b3'' \<noteq> Some ''1''"
    and lists: "lister_List (hub_bindings ?hub) = Inr [alice_binding, carol_binding]"
    and role: "lister_Get (hub_roles ?hub) (ref_Name (binding_RoleRef carol_binding)) = Inr c1_viewer"
    and covered: "''c1'' |\<in>| role_resources (fst sample_state) c1_viewer" "''c1'' |\<in>| hub_names ?hub"
    and granted: "hub_lists ?hub carol ''c1''"
    by code_simp+
  have "''c1'' |\<in>| listNames (fst s') carol \<longleftrightarrow> hub_lists ?hub carol ''c1''"
    by (rule binding_change_takes_effect [OF sample_hub_ok sample_orders_fair sample_state_facts(2) s' lists
        _ role covered])
      (use new in \<open>simp_all add: carol_binding_def sample_binding_def\<close>)
  with s' granted show ?thesis by blast
qed

text \<open>C7: a cluster that is new or whose resource version has changed is reviewed in the next
  pass: from then on exactly the users that RBAC lets get it see it.\<close>

theorem cluster_change_takes_effect:
  assumes "hub_ok hub" "fair_orders mo" "cluster_cache_ok (fst s)"
    and "ClusterCache_synchronize hub mo s = Done () s'"
    and "lister_List (hub_clusters hub) = Inr cs" "c \<in> set cs"
    and "\<And>r. fmlookup (reviewRecordStore (fst s)) (ClusterName c) = Some r \<Longrightarrow>
           meta_ResourceVersion (mc_Meta c) \<noteq> []
           \<and> rq_resourceVersion (rr_request r) \<noteq> meta_ResourceVersion (mc_Meta c)"
  shows "ClusterName c |\<in>| listNames (fst s') u \<longleftrightarrow> hub_lists hub u (ClusterName c)"
proof -
  have "needs_review (caches (fst s)) (all_requests (cluster_env hub mo) (caches (fst s))) (ClusterName c)"
    using assms(5-7) by (intro needs_review_cluster) simp_all
  moreover have "ClusterName c |\<in>| hub_names hub"
    using assms(5,6) by (simp add: hub_names_def)
  ultimately show ?thesis using assms(1-4) by (intro reviewed_name_lists)
qed

theorem cluster_change_takes_effect_witness:
  "\<exists>s'. ClusterCache_synchronize (sample_hub [sample_cluster ''c1'' ''2'', c2] [ops_binding]) sample_orders
       sample_state = Done () s' \<and> ''c1'' |\<notin>| listNames (fst s') alice"
proof -
  let ?c = "sample_cluster ''c1'' ''2''"
  let ?hub = "sample_hub [?c, c2] [ops_binding]"
  obtain s' where s': "ClusterCache_synchronize ?hub sample_orders sample_state = Done () s'"
    by (rule sample_second_pass [OF sample_hub_ok sample_orders_fair])
  have old: "case fmlookup (reviewRecordStore (fst sample_state)) ''c1'' of None \<Rightarrow> True
      | Some r \<Rightarrow> rq_resourceVersion (rr_request r) \<noteq> ''2''"
    and lists: "lister_List (hub_clusters ?hub) = Inr [?c, c2]"
    and denied: "\<not> hub_lists ?hub alice ''c1''"
    by code_simp+
  have "ClusterName ?c |\<in>| listNames (fst s') alice \<longleftrightarrow> hub_lists ?hub alice (ClusterName ?c)"
    by (rule cluster_change_takes_effect [OF sample_hub_ok sample_orders_fair sample_state_facts(2) s' lists])
      (use old in \<open>simp_all add: sample_cluster_def ClusterName_def\<close>)
  with s' denied show ?thesis by (auto simp: sample_cluster_def ClusterName_def)
qed

text \<open>After a pass nobody lists a name that is not a cluster of the hub.\<close>

theorem gone_names_vanish:
  assumes "hub_ok hub" "fair_orders mo" "cluster_cache_ok (fst s)"
    and "ClusterCache_synchronize hub mo s = Done () s'"
  shows "listNames (fst s') u |\<subseteq>| hub_names hub"
  using pass_lists_view [OF assms] pass_view [OF assms] by (auto simp: view_lists_def split: if_splits)

theorem gone_names_vanish_witness:
  "\<exists>s'. ClusterCache_synchronize (sample_hub [c2] [alice_binding]) sample_orders sample_state = Done () s'
     \<and> listNames (fst s') alice |\<subseteq>| {|''c2''|}"
proof -
  obtain s' where s': "ClusterCache_synchronize (sample_hub [c2] [alice_binding]) sample_orders
      sample_state = Done () s'"
    by (rule sample_second_pass [OF sample_hub_ok sample_orders_fair])
  have "hub_names (sample_hub [c2] [alice_binding]) = {|''c2''|}" by code_simp
  then show ?thesis
    using gone_names_vanish [OF sample_hub_ok sample_orders_fair sample_state_facts(2) s', of alice] s' by auto
qed



text \<open>Passes over an unchanged hub change nobody's listing: once up to date, the cache
  stays up to date, and every listing is the access relation on the existing clusters.\<close>

theorem unchanged_hub_stays:
  assumes "hub_ok hub" "fair_orders mo" "up_to_date hub (fst s)"
    and "ClusterCache_synchronize hub mo s = Done () s'"
  shows "up_to_date hub (fst s')
    \<and> (\<forall>u n. n |\<in>| listNames (fst s') u \<longleftrightarrow> n |\<in>| hub_names hub \<and> hub_lists hub u n)"
proof -
  have "up_to_date hub (sync_step (cluster_env hub mo) (caches (fst s)))"
    using assms(2,3) by (simp add: pass_stays_up_to_date)
  with ClusterCache_synchronize_Done [OF assms(4,1)] have "up_to_date hub (caches (fst s'))" by simp
  then have "up_to_date hub (fst s')" by simp
  then show ?thesis using up_to_date_names by blast
qed

theorem unchanged_hub_stays_witness:
  "\<exists>s'. ClusterCache_synchronize full_hub sample_orders sample_state = Done () s' \<and> up_to_date full_hub (fst s')"
proof -
  obtain s' where s': "ClusterCache_synchronize full_hub sample_orders sample_state = Done () s'"
    by (rule sample_second_pass [OF sample_hub_ok sample_orders_fair])
  from unchanged_hub_stays [OF sample_hub_ok sample_orders_fair sample_state_facts(1) s'] s' show ?thesis by blast
qed



text \<open>C12: a pass returns when the mutex is free and every watch has room for one event per
  notification of the pass and watcher; it then has the effect of \<open>sync_step\<close>, and leaves the
  watcher list and the mutex as they were.\<close>

theorem pass_returns:
  assumes "hub_ok hub" "fair_orders mo" "\<not> watcherLocked ac"
    and "heap_room (notification_bound (cluster_env hub mo) ac * length (watchers ac)) heap"
  shows "\<exists>s'. ClusterCache_synchronize hub mo (ac, heap) = Done () s'
    \<and> fst s' = sync_step (cluster_env hub mo) ac
    \<and> watchers (fst s') = watchers ac \<and> \<not> watcherLocked (fst s')"
  using ClusterCache_synchronize_room [OF assms(3,1,2,4)] assms(3) by auto

theorem pass_returns_witness:
  "\<exists>s'. ClusterCache_synchronize full_hub sample_orders ((fst sample_state)\<lparr>watchers := [0]\<rparr>, fmupd 0 sample_watch fmempty)
       = Done () s' \<and> watchers (fst s') = [0]"
proof -
  let ?ac = "(fst sample_state)\<lparr>watchers := [0]\<rparr>"
  have "notification_bound (cluster_env full_hub sample_orders) ?ac = 5" by code_simp
  then have "heap_room (notification_bound (cluster_env full_hub sample_orders) ?ac * length (watchers ?ac))
      (fmupd 0 sample_watch fmempty)"
    by (simp add: heap_room_def cacheIncoming_cap_def sample_watch_def NewCacheWatcher_def Let_def)
  from pass_returns [OF sample_hub_ok sample_orders_fair _ this] sample_state_facts(5) show ?thesis by auto
qed

text \<open>C13: a listing changes only through a review: if the records cover every request of a pass
  for a name, whoever listed it before still lists it afterwards, also when RBAC no longer
  grants access. Deleting a binding makes no request, so that the access it gave stays.\<close>

theorem unreviewed_access_stays:
  assumes "hub_ok hub" "fair_orders mo" "cluster_cache_ok (fst s)"
    and "ClusterCache_synchronize hub mo s = Done () s'" "n |\<in>| hub_names hub"
    and "\<not> needs_review (caches (fst s)) (all_requests (cluster_env hub mo) (caches (fst s))) n"
  shows "n |\<in>| listNames (fst s') u \<longleftrightarrow> n |\<in>| listNames (fst s) u"
  using pass_lists_view [OF assms(1-4)] pass_view [OF assms(1-4), of n] assms(3,5,6)
  by (simp add: cluster_cache_ok_def listNames_view view_lists_def)

theorem unreviewed_access_stays_witness:
  "\<exists>s'. ClusterCache_synchronize (sample_hub [c1, c2] []) sample_orders sample_state = Done () s'
     \<and> ''c1'' |\<in>| listNames (fst s') alice \<and> \<not> hub_lists (sample_hub [c1, c2] []) alice ''c1''"
proof -
  let ?hub = "sample_hub [c1, c2] []"
  obtain s' where s': "ClusterCache_synchronize ?hub sample_orders sample_state = Done () s'"
    by (rule sample_second_pass [OF sample_hub_ok sample_orders_fair])
  have covered: "\<not> needs_review (caches (fst sample_state))
      (all_requests (cluster_env ?hub sample_orders) (caches (fst sample_state))) ''c1''"
    and known: "''c1'' |\<in>| hub_names ?hub" and before: "''c1'' |\<in>| listNames (fst sample_state) alice"
    and denied: "\<not> hub_lists ?hub alice ''c1''"
    by code_simp+
  from unreviewed_access_stays [OF sample_hub_ok sample_orders_fair sample_state_facts(2) s' known covered]
  show ?thesis using s' before denied by blast
qed

text \<open>C30: listing through the cluster cache skips names that are gone, keeps the label selector,
  and fails exactly with an error of the lister that is not NotFound.\<close>

theorem cluster_list_outcome:
  assumes "range_order ord"
  shows "case ClusterCache_List ord ac l u sel of
      Inl e \<Rightarrow> \<not> IsNotFound e \<and> (\<exists>n. n |\<in>| listNames ac u \<and> lister_Get l n = Inl e)
    | Inr items \<Rightarrow> (\<forall>n e. n |\<in>| listNames ac u \<and> lister_Get l n = Inl e \<longrightarrow> IsNotFound e)
        \<and> set items = {c. \<exists>n. n |\<in>| listNames ac u \<and> lister_Get l n = Inr c \<and> sel (meta_Labels (mc_Meta c))}"
proof (cases "ClusterCache_List ord ac l u sel")
  case (Inl e)
  then show ?thesis
    using clusters.loop_error [of l sel "ord (sorted_list_of_fset (listNames ac u))" "[]" e] assms
    by (auto simp: ClusterCache_List_def sorted_list_of_fset.rep_eq)
next
  case (Inr items)
  let ?keys = "ord (sorted_list_of_fset (listNames ac u))"
  have items: "cluster_list_loop l sel ?keys [] = Inr items"
    using Inr by (simp add: ClusterCache_List_def)
  then show ?thesis
    using clusters.loop_set [OF items] clusters.loop_ok_iff [of l sel ?keys "[]"] assms
    by (auto simp: Inr sorted_list_of_fset.rep_eq)
qed

theorem cluster_list_outcome_witness:
  "set (case ClusterCache_List rev (fst sample_state) (clusterInformer_lister id [c1, c2]) bob Everything of
      Inl e \<Rightarrow> [] | Inr items \<Rightarrow> items)
   = {c. \<exists>n. n |\<in>| listNames (fst sample_state) bob \<and> lister_Get (clusterInformer_lister id [c1, c2]) n = Inr c}"
proof -
  have eq: "ClusterCache_List rev (fst sample_state) (clusterInformer_lister id [c1, c2]) bob Everything
      = Inr [c2, c1]" by code_simp
  show ?thesis
    using cluster_list_outcome [OF range_order_rev, where ac = "fst sample_state" and u = bob
        and l = "clusterInformer_lister id [c1, c2]" and sel = Everything]
    by (simp add: eq)
qed

text \<open>A request that has been synchronised is satisfied: the same request again does
  nothing, whatever the reviewer would answer then and whoever watches.\<close>

theorem repeated_request_skipped:
  assumes "watchable_cache wc" "syncRequest env (GroupMembershipChanged wc) rq s = Done None s'"
  shows "syncRequest env' gmc rq s' = Done None s'"
proof -
  have caches: "caches (fst s') = request_step env rq (caches (fst s))"
    using cache_watcher.syncRequest_Done [OF watchable_cache_watches [OF assms(1)] assms(2)] .
  have "skipped (caches (fst s')) rq"
  proof (cases "skipped (fst s) rq")
    case True
    then show ?thesis by (simp add: caches request_step_def)
  next
    case False
    then obtain rv where "reviewed env (fst s) (rq_name rq) = Inr rv"
      using assms(2) by (cases s) (auto simp: syncRequest_eq split: sum.splits)
    with False show ?thesis
      unfolding caches
      by (simp add: request_step_def) (simp add: skipped_def apply_review_def Let_def skip_after_cache)
  qed
  then show ?thesis by (cases s') (simp add: syncRequest_eq)
qed

theorem repeated_request_skipped_witness:
  "let rq = \<lparr>rq_name = ''c1'', rq_resourceVersion = ''7'', rq_roleUIDToResourceVersion = fmempty,
             rq_roleBindingUIDToResourceVersion = fmempty\<rparr>;
       env = cluster_env full_hub sample_orders;
       gmc = GroupMembershipChanged (ClusterCache_watchable id (fst sample_state) (clusterInformer_lister id [c1, c2]));
       s' = run_state (syncRequest env gmc rq sample_state)
   in syncRequest env gmc rq s' = Done None s'"
proof -
  let ?rq = "\<lparr>rq_name = ''c1'', rq_resourceVersion = ''7'', rq_roleUIDToResourceVersion = fmempty,
             rq_roleBindingUIDToResourceVersion = fmempty\<rparr> :: review_request"
  let ?gmc = "GroupMembershipChanged (ClusterCache_watchable id (fst sample_state) (clusterInformer_lister id [c1, c2]))"
  have "case syncRequest (cluster_env full_hub sample_orders) ?gmc ?rq sample_state of
      Done e s \<Rightarrow> e = None | Blocked s \<Rightarrow> False" by code_simp
  then obtain s' where "syncRequest (cluster_env full_hub sample_orders) ?gmc ?rq sample_state = Done None s'"
    by (auto split: run.splits)
  from repeated_request_skipped [OF cluster_watches.watchable_cache_axioms this] this show ?thesis by simp
qed

end
