(* ===== verification/Watch_Request.thy ===== *)
theory Watch_Request
  imports Sample_Hub
begin

text \<open>
  A watch from its request on: the invariant of a watch started through the REST storage, and
  the deadlock on a full channel.
\<close>

lemma count_filter: "count (mset xs) w = length (filter (\<lambda>v. v = w) xs)"
  by (induction xs) auto

section \<open>A watch started by a request\<close>

lemma ClusterCache_ListObjects_distinct:
  assumes "range_order ord" "\<And>n c. lister_Get l n = Inr c \<Longrightarrow> ClusterName c = n"
    and "ClusterCache_ListObjects ord ac l u = Inr objectList" "ExtractList objectList = Inr objs"
  shows "distinct (map GetName objs)"
proof -
  obtain cs where cs: "cluster_list_loop l Everything (ord (sorted_list_of_fset (listNames ac u))) [] = Inr cs"
    "objs = map ManagedCluster cs"
    using assms(3,4) by (auto simp: ClusterCache_ListObjects_def ClusterCache_List_def)
  have "distinct cs"
    using clusters.loop_distinct [OF cs(1), of ClusterName] assms(1,2)
    by (simp add: sorted_list_of_fset.rep_eq)
  moreover have "inj_on ClusterName (set cs)"
    using clusters.loop_set [OF cs(1)] assms(2) by (fastforce simp: inj_on_def)
  ultimately show ?thesis
    by (simp add: cs(2) comp_def GetName_def ClusterName_def [abs_def] distinct_map)
qed

lemma ClusterREST_Watch_registered:
  assumes "ClusterREST_Watch rest ord w ctx options s = Done (Inr r) s0"
    and "range_order ord" "\<And>n c. lister_Get (cr_Lister rest) n = Inr c \<Longrightarrow> ClusterName c = n"
    and "w \<notin> set (watchers (fst s))"
  obtains cw0 user ns cs where "registered w cw0 s0" "fresh_watch (watch_base cw0) cw0"
    "ctx = Some (Some user)" "w_user cw0 = user"
    "ScopesToVisibleNamespaces (user_extra user ScopesKey) (cr_RoleLister rest) True = (ns, None)"
    "lister_List (cr_Lister rest) = Inr cs"
    "visibleResources cw0 = fset_of_list (map ClusterName cs) |\<inter>| ns"
proof -
  obtain user ns cs where user: "ctx = Some (Some user)"
    and scopes: "ScopesToVisibleNamespaces (user_extra user ScopesKey) (cr_RoleLister rest) True = (ns, None)"
      "lister_List (cr_Lister rest) = Inr cs"
    and out: "watch_outcome w user (fset_of_list (map ClusterName cs) |\<inter>| ns)
       (ClusterCache_watchable ord (fst s) (cr_Lister rest)) s s0"
    using ClusterREST_Watch_ok [OF assms(1)] by metis
  let ?wc = "ClusterCache_watchable ord (fst s) (cr_Lister rest)"
  from out obtain all where s0: "s0 = ((fst s)\<lparr>watchers := watchers (fst s) @ [w]\<rparr>,
      fmupd w (NewCacheWatcher user (fset_of_list (map ClusterName cs) |\<inter>| ns) ?wc all) (snd s))"
    by (auto simp: watch_outcome_def)
  let ?cw = "NewCacheWatcher user (fset_of_list (map ClusterName cs) |\<inter>| ns) ?wc all"
  have "registered w ?cw s0"
    using assms(4) by (auto simp: registered_def s0 filter_empty_conv)
  moreover have "fresh_watch (watch_base ?cw) ?cw"
    by (rule NewCacheWatcher_fresh)
      (use ClusterCache_ListObjects_distinct [OF assms(2,3)] in \<open>simp add: ClusterCache_watchable_def\<close>)
  ultimately show ?thesis
    by (rule that [OF _ _ user _ scopes]) (simp_all only: NewCacheWatcher_fields)
qed

section \<open>A full channel\<close>

text \<open>The notification would send \<open>cw\<close> an event.\<close>

definition has_access :: "watch \<Rightarrow> string fset \<Rightarrow> string fset \<Rightarrow> bool" where
  "has_access cw us gs \<longleftrightarrow> user_Name (w_user cw) |\<in>| us \<or> (\<exists>g \<in> set (user_Groups (w_user cw)). g |\<in>| gs)"

definition in_sight :: "watch \<Rightarrow> string \<Rightarrow> bool" where
  "in_sight cw n \<longleftrightarrow> ''*'' |\<in>| visibleResources cw \<or> n |\<in>| visibleResources cw"

text \<open>The version of \<open>n\<close> the watch should know after a notification, if any.\<close>

definition target_version :: "watchable \<Rightarrow> watch \<Rightarrow> string \<Rightarrow> string fset \<Rightarrow> string fset \<Rightarrow> string option" where
  "target_version wc cw n us gs =
     (if \<not> in_sight cw n then fmlookup (knownResources cw) n
      else if \<not> has_access cw us gs then None
      else case wc_Get wc n of
        Inl err \<Rightarrow> fmlookup (knownResources cw) n | Inr obj \<Rightarrow> Some (GetResourceVersion obj))"

definition wants_event :: "watchable \<Rightarrow> watch \<Rightarrow> string \<Rightarrow> string fset \<Rightarrow> string fset \<Rightarrow> bool" where
  "wants_event wc cw n us gs \<longleftrightarrow> target_version wc cw n us gs \<noteq> fmlookup (knownResources cw) n"

lemma list_ex_groups: "list_ex (\<lambda>g. g |\<in>| gs) xs \<longleftrightarrow> (\<exists>g \<in> set xs. g |\<in>| gs)"
  by (simp add: list_ex_iff)

lemmas gmc_cases = wants_event_def target_version_def in_sight_def has_access_def

context watchable_cache
begin

text \<open>Every notification either does nothing or pushes one event.\<close>

lemma gmc_quiet:
  assumes "fmlookup heap w = Some cw" "\<not> wants_event wc cw n us gs"
  shows "GroupMembershipChanged wc w n us gs (ac, heap) = Done () (ac, heap)"
  using assms
  by (auto simp: GroupMembershipChanged_def gmc_cases Let_def list_ex_groups split: if_splits sum.splits)

lemma gmc_pushes:
  assumes "fmlookup heap w = Some cw" "wants_event wc cw n us gs"
  obtains e err where "GroupMembershipChanged wc w n us gs (ac, heap) =
      push_event wc w e err (cw\<lparr>knownResources := apply_event e (knownResources cw)\<rparr>) (ac, heap)"
    "event_ok (knownResources cw) e"
    "fmlookup (apply_event e (knownResources cw)) n = target_version wc cw n us gs"
    "\<forall>m. m \<noteq> n \<longrightarrow> fmlookup (apply_event e (knownResources cw)) m = fmlookup (knownResources cw) m"
    "visible_event cw e"
proof (cases "has_access cw us gs")
  case False
  let ?e = "\<lparr>ev_Type = Deleted, ev_Object = Item (wc_ConvertResource wc n)\<rparr>"
  have "in_sight cw n" "fmlookup (knownResources cw) n \<noteq> None"
    using assms(2) False
    by (cases "in_sight cw n"; cases "fmlookup (knownResources cw) n";
        simp add: wants_event_def target_version_def)+
  with False assms(1) show ?thesis
    by (intro that [of ?e "ErrorText ''delete notification timeout''"])
      (auto simp: GroupMembershipChanged_def has_access_def in_sight_def target_version_def
        visible_event_def convert_name list_ex_groups Let_def)
next
  case True
  then obtain obj where obj: "wc_Get wc n = Inr obj" "in_sight cw n"
      "fmlookup (knownResources cw) n \<noteq> Some (GetResourceVersion obj)"
    using assms(2) by (auto simp: wants_event_def target_version_def split: if_splits sum.splits)
  note name = get_name [OF obj(1)]
  show ?thesis
  proof (cases "fmlookup (knownResources cw) n")
    case None
    with True obj assms(1) name show ?thesis
      by (intro that [of "\<lparr>ev_Type = Added, ev_Object = Item obj\<rparr>" "ErrorText ''add notification timeout''"])
        (auto simp: GroupMembershipChanged_def has_access_def in_sight_def target_version_def
          visible_event_def list_ex_groups Let_def)
  next
    case (Some v)
    with True obj assms(1) name show ?thesis
      by (intro that [of "\<lparr>ev_Type = Modified, ev_Object = Item obj\<rparr>" "ErrorText ''add notification timeout''"])
        (auto simp: GroupMembershipChanged_def has_access_def in_sight_def target_version_def
          visible_event_def list_ex_groups Let_def)
  qed
qed

lemma gmc_full:
  assumes "fmlookup heap w = Some cw" "wants_event wc cw n us gs"
    and "\<not> length (cacheIncoming cw) < cacheIncoming_cap" "watcherLocked ac"
  shows "\<exists>h'. GroupMembershipChanged wc w n us gs (ac, heap) = Blocked (ac, h')"
proof -
  obtain e err where "GroupMembershipChanged wc w n us gs (ac, heap) =
      push_event wc w e err (cw\<lparr>knownResources := apply_event e (knownResources cw)\<rparr>) (ac, heap)"
    using gmc_pushes [OF assms(1,2)] by metis
  with assms(3,4) show ?thesis by (simp add: push_full)
qed

text \<open>A notification touches no other watch.\<close>

lemma gmc_other:
  assumes "v \<noteq> w" "watcherLocked ac" "GroupMembershipChanged wc v n us gs (ac, heap) = Done u s'"
  shows "fst s' = ac \<and> fmlookup (snd s') w = fmlookup heap w"
proof (cases "fmlookup heap v")
  case None
  with assms(3) show ?thesis by (auto simp: GroupMembershipChanged_def)
next
  case (Some cw)
  show ?thesis
  proof (cases "wants_event wc cw n us gs")
    case False
    with gmc_quiet [OF Some False] assms(3) show ?thesis by auto
  next
    case True
    then obtain e err where push: "GroupMembershipChanged wc v n us gs (ac, heap) =
      push_event wc v e err (cw\<lparr>knownResources := apply_event e (knownResources cw)\<rparr>) (ac, heap)"
      using gmc_pushes [OF Some True] by metis
    show ?thesis
    proof (cases "length (cacheIncoming cw) < cacheIncoming_cap")
      case True
      with push assms(1,3) show ?thesis by (auto simp: push_room)
    next
      case False
      with push assms(2,3) show ?thesis by (simp add: push_full)
    qed
  qed
qed

lemma for_each_gmc_full:
  assumes "w \<in> set vs" "fmlookup heap w = Some cw" "wants_event wc cw n us gs"
    and "\<not> length (cacheIncoming cw) < cacheIncoming_cap" "watcherLocked ac"
  shows "\<exists>h'. for_each (\<lambda>v. GroupMembershipChanged wc v n us gs) vs (ac, heap) = Blocked (ac, h')"
  using assms
proof (induction vs arbitrary: heap)
  case (Cons v vs)
  show ?case
  proof (cases "v = w")
    case True
    with gmc_full [OF Cons.prems(2-5)] show ?thesis by auto
  next
    case False
    show ?thesis
    proof (cases "GroupMembershipChanged wc v n us gs (ac, heap)")
      case (Blocked s)
      with gmc_rel [OF Cons.prems(5), of heap v n us gs] show ?thesis by (cases s) auto
    next
      case (Done u s)
      then obtain h' where "s = (ac, h')" "fmlookup h' w = fmlookup heap w"
        using gmc_other [OF False Cons.prems(5) Done] by (cases s) auto
      with Done Cons False show ?thesis by auto
    qed
  qed
qed simp

end

section \<open>The mutex is never released\<close>

lemma watch_step_locked:
  "watch_step w x y \<Longrightarrow> watcherLocked (fst (fst x)) \<Longrightarrow> g_pc (snd x) \<notin> {Closing, Returned} \<Longrightarrow>
     watcherLocked (fst (fst y)) \<and> g_pc (snd y) \<notin> {Closing, Returned}"
proof (induction rule: watch_step.induct)
  case (notify wc n us gs s s' g)
  then show ?case by (simp add: notifyWatchers_def with_lock_def)
next
  case (notify_stuck wc n us gs s s' g)
  then show ?case by (simp add: notifyWatchers_def with_lock_def)
next
  case (remove g s s')
  then show ?case by (cases s) (simp add: RemoveWatcher_eq)
qed auto

lemma watch_steps_locked:
  "(watch_step w)\<^sup>*\<^sup>* x y \<Longrightarrow> watcherLocked (fst (fst x)) \<Longrightarrow> g_pc (snd x) \<notin> {Closing, Returned} \<Longrightarrow>
     watcherLocked (fst (fst y)) \<and> g_pc (snd y) \<notin> {Closing, Returned}"
  by (induction rule: rtranclp_induct) (auto dest: watch_step_locked)

lemma watch_steps_closed:
  "(watch_step w)\<^sup>*\<^sup>* x y \<Longrightarrow> (g_closed (snd x) \<longleftrightarrow> g_pc (snd x) = Returned)
     \<Longrightarrow> (g_closed (snd y) \<longleftrightarrow> g_pc (snd y) = Returned)"
proof (induction rule: rtranclp_induct)
  case (step y z)
  from step(2) step(3) [OF step(4)] show ?case by (induction rule: watch_step.induct) auto
qed

text \<open>The invariant along the whole life of a watch started by a request.\<close>

lemma ClusterREST_Watch_inv:
  assumes "ClusterREST_Watch rest ord w ctx options s = Done (Inr r) s0" "range_order ord"
    and "\<And>n c. lister_Get (cr_Lister rest) n = Inr c \<Longrightarrow> ClusterName c = n"
    and "w \<notin> set (watchers (fst s))" "watch_reach w s0 ((ac, heap), g)"
  obtains cw0 cw where "registered w cw0 s0" "fmlookup (snd s0) w = Some cw0"
    "fmlookup heap w = Some cw" "local_inv w (watch_base cw0) cw0 ac cw g"
proof -
  obtain cw0 where cw0: "registered w cw0 s0" "fresh_watch (watch_base cw0) cw0"
    by (rule ClusterREST_Watch_registered [OF assms(1-4)])
  from watch_inv_reach [OF assms(5) watch_inv_start [OF cw0]] cw0(1) show ?thesis
    by (auto simp: watch_inv_def registered_def intro: that)
qed

end
