(* ===== verification/Watch_End.thy ===== *)
theory Watch_End
  imports Watch_Request
begin

text \<open>
  The steps that the goroutine of a watch takes by itself: they end, whatever the scheduler
  and the \<open>select\<close> choose, and where they end is determined: with everything delivered when
  the client has not stopped, with the channel closed and the watch removed when it has.
\<close>

section \<open>The steps of the goroutine itself\<close>

text \<open>They are the steps that move its program counter.\<close>

definition own_step :: "watcher_id \<Rightarrow> watch_sys \<Rightarrow> watch_sys \<Rightarrow> bool" where
  "own_step w x y \<longleftrightarrow> watch_step w x y \<and> g_pc (snd y) \<noteq> g_pc (snd x)"

lemma own_steps_watch: "(own_step w)\<^sup>*\<^sup>* x y \<Longrightarrow> (watch_step w)\<^sup>*\<^sup>* x y"
  by (erule rtranclp_mono [THEN predicate2D, rotated]) (auto simp: own_step_def)

text \<open>
  Every run of own steps from \<open>x\<close> has at most \<open>k\<close> steps, and one that cannot go on has ended in
  \<open>P\<close>.
\<close>

definition must_reach :: "watcher_id \<Rightarrow> nat \<Rightarrow> watch_sys \<Rightarrow> (watch_sys \<Rightarrow> bool) \<Rightarrow> bool" where
  "must_reach w k x P \<longleftrightarrow>
     (\<forall>n y. (own_step w ^^ n) x y \<longrightarrow> n \<le> k \<and> ((\<nexists>z. own_step w y z) \<longrightarrow> P y))"

lemma must_reach_ends:
  assumes "must_reach w k x P"
  obtains y where "(own_step w)\<^sup>*\<^sup>* x y" "P y"
proof -
  let ?run = "\<lambda>n. \<exists>y. (own_step w ^^ n) x y"
  have "?run 0" by simp
  moreover have "\<forall>n. ?run n \<longrightarrow> n \<le> k" using assms by (auto simp: must_reach_def)
  ultimately obtain n where n: "?run n" "\<forall>m. ?run m \<longrightarrow> m \<le> n"
    using Greatest_le_nat [of ?run _ k] GreatestI_nat [of ?run 0 k] by blast
  then obtain y where y: "(own_step w ^^ n) x y" by blast
  have "\<not> own_step w y z" for z
    using n(2) y relpowp_Suc_I [OF y, of z] by fastforce
  then have "P y" using assms y unfolding must_reach_def by blast
  with y show thesis by (blast intro: that relpowp_imp_rtranclp)
qed

section \<open>Where a step of its own leads\<close>

text \<open>How many steps of its own the goroutine can still take.\<close>

fun steps_left :: "pc \<Rightarrow> watch \<Rightarrow> nat" where
  "steps_left (AtInit i) cw = 2 * (length (initialResources cw) - i) + 2 * length (cacheIncoming cw) + 5"
| "steps_left (EmitInit i) cw = 2 * (length (initialResources cw) - i) + 2 * length (cacheIncoming cw) + 4"
| "steps_left AtSelect cw = 2 * length (cacheIncoming cw) + 4"
| "steps_left (EmitEvent ev) cw = 2 * length (cacheIncoming cw) + 5"
| "steps_left (EmitError ev) cw = 3"
| "steps_left Removing cw = 2"
| "steps_left Closing cw = 1"
| "steps_left Returned cw = 0"

lemma steps_left_bound:
  "steps_left p cw \<le> 2 * (length (initialResources cw) + length (cacheIncoming cw)) + 5"
  by (cases p) simp_all

text \<open>What such a step does to the watch; only a stopped watch leaves the cache.\<close>

definition moved :: "watcher_id \<Rightarrow> watch \<Rightarrow> watch_sys \<Rightarrow> watch_sys \<Rightarrow> watch \<Rightarrow> bool" where
  "moved w cw x y cw' \<longleftrightarrow>
     fmlookup (snd (fst y)) w = Some cw' \<and> cw' = cw\<lparr>cacheIncoming := cacheIncoming cw'\<rparr>
     \<and> watcherLocked (fst (fst y)) = watcherLocked (fst (fst x))
     \<and> (\<not> userStop cw \<longrightarrow> fst (fst y) = fst (fst x) \<and> produced (snd y) cw' = produced (snd x) cw)"

lemma moved_stop: "moved w cw x y cw' \<Longrightarrow> userStop cw' = userStop cw"
  by (cases cw; cases cw') (auto simp: moved_def)

lemma own_step_moved:
  assumes "own_step w x y" "watch_inv w base cw0 x" "fmlookup (snd (fst x)) w = Some cw"
  shows "\<exists>cw'. moved w cw x y cw' \<and> steps_left (g_pc (snd y)) cw' < steps_left (g_pc (snd x)) cw"
proof -
  have inv: "pc_ok (g_pc (snd x)) cw" "cacheError cw = []"
    using assms(2,3) by (simp_all add: watch_inv_def local_inv_def)
  from assms(1) have "watch_step w x y" "g_pc (snd y) \<noteq> g_pc (snd x)" by (simp_all add: own_step_def)
  then show ?thesis using inv assms(3)
  proof (induction rule: watch_step.induct)
    case (emit_init heap cw1 g i ac)
    then show ?case by (auto simp: moved_def produced_def simp flip: Cons_nth_drop_Suc)
  next
    case (remove g s s')
    then show ?case by (cases s) (auto simp: moved_def RemoveWatcher_eq split: if_splits)
  qed (auto simp: moved_def produced_def)
qed

lemma own_steps_moved:
  assumes "(own_step w ^^ n) x y" "watch_inv w base cw0 x" "fmlookup (snd (fst x)) w = Some cw"
  shows "watch_inv w base cw0 y \<and> (\<exists>cw'. moved w cw x y cw'
    \<and> n + steps_left (g_pc (snd y)) cw' \<le> steps_left (g_pc (snd x)) cw)"
  using assms(1)
proof (induction n arbitrary: y)
  case 0
  then show ?case using assms(2,3) by (auto simp: moved_def)
next
  case (Suc n)
  then obtain z where z: "(own_step w ^^ n) x z" "own_step w z y" by auto
  from Suc.IH [OF z(1)] obtain c where c: "watch_inv w base cw0 z" "moved w cw x z c"
    "n + steps_left (g_pc (snd z)) c \<le> steps_left (g_pc (snd x)) cw" by blast
  then have look: "fmlookup (snd (fst z)) w = Some c" by (simp add: moved_def)
  from own_step_moved [OF z(2) c(1) look] obtain cw' where
    cw': "moved w c z y cw'" "steps_left (g_pc (snd y)) cw' < steps_left (g_pc (snd z)) c" by blast
  have "moved w cw x y cw'"
    using c(2) cw'(1) unfolding moved_def by (cases c; cases cw; cases cw') auto
  moreover have "watch_inv w base cw0 y"
    using watch_inv_step [OF _ c(1)] z(2) by (simp add: own_step_def)
  ultimately show ?case using cw'(2) c(3) by fastforce
qed

section \<open>When there is no step left\<close>

lemma own_step_possible:
  assumes "watch_inv w base cw0 ((ac, heap), g)" "fmlookup heap w = Some cw"
    and "g_pc g = AtSelect \<Longrightarrow> userStop cw \<or> cacheIncoming cw \<noteq> []"
    and "g_pc g = Removing \<Longrightarrow> \<not> watcherLocked ac" "g_pc g \<noteq> Returned"
  shows "\<exists>y. own_step w ((ac, heap), g) y"
proof -
  have inv: "pc_ok (g_pc g) cw" "cacheError cw = []"
    using assms(1,2) by (simp_all add: watch_inv_def local_inv_def)
  have own: "\<exists>y. own_step w ((ac, heap), g) y" if "watch_step w ((ac, heap), g) (s, h)" "g_pc h \<noteq> g_pc g" for s h
    using that unfolding own_step_def by (intro exI [of _ "(s, h)"]) simp
  show ?thesis
  proof (cases "g_pc g")
    case (AtInit i)
    then show ?thesis
      using own [OF init_next [OF assms(2) AtInit _ inv(2)]] own [OF init_done [OF assms(2) AtInit]] by auto
  next
    case (EmitInit i)
    with own [OF emit_init [OF assms(2) EmitInit]] inv(1) show ?thesis by simp
  next
    case AtSelect
    with assms(3) own [OF select_stop [OF assms(2) AtSelect]] own [OF select_event [OF assms(2) AtSelect]]
    show ?thesis by (cases "cacheIncoming cw") auto
  next
    case (EmitEvent ev)
    with own [OF emit_event [OF EmitEvent]] show ?thesis by simp
  next
    case (EmitError ev)
    with own [OF emit_error [OF EmitError]] show ?thesis by simp
  next
    case Removing
    with assms(4) own [OF remove [OF Removing]] show ?thesis by (simp add: RemoveWatcher_eq)
  next
    case Closing
    with own [OF close [OF Closing]] show ?thesis by simp
  qed (use assms(5) in simp)
qed

lemma must_reachI:
  assumes "watch_inv w base cw0 x" "fmlookup (snd (fst x)) w = Some cw"
    and "\<And>y cw'. watch_inv w base cw0 y \<Longrightarrow> moved w cw x y cw' \<Longrightarrow> \<nexists>z. own_step w y z \<Longrightarrow> P y"
  shows "must_reach w (2 * (length (initialResources cw) + length (cacheIncoming cw)) + 5) x P"
  unfolding must_reach_def
proof (intro allI impI)
  fix n y
  assume "(own_step w ^^ n) x y"
  from own_steps_moved [OF this assms(1,2)] obtain cw' where y: "watch_inv w base cw0 y" "moved w cw x y cw'"
    "n + steps_left (g_pc (snd y)) cw' \<le> steps_left (g_pc (snd x)) cw" by blast
  then have "n \<le> 2 * (length (initialResources cw) + length (cacheIncoming cw)) + 5"
    using steps_left_bound [of "g_pc (snd x)" cw] by linarith
  with assms(3) [OF y(1,2)]
  show "n \<le> 2 * (length (initialResources cw) + length (cacheIncoming cw)) + 5 \<and> ((\<nexists>z. own_step w y z) \<longrightarrow> P y)"
    by blast
qed

text \<open>A watch that is not stopped delivers all it holds.\<close>

lemma drain_watch:
  assumes "watch_inv w base cw0 ((ac, heap), g)" "fmlookup heap w = Some cw" "\<not> userStop cw"
  shows "must_reach w (2 * (length (initialResources cw) + length (cacheIncoming cw)) + 5) ((ac, heap), g)
    (\<lambda>((ac', heap'), g'). ac' = ac \<and> g' = g\<lparr>g_pc := AtSelect, g_out := produced g cw\<rparr>
       \<and> fmlookup heap' w = Some (cw\<lparr>cacheIncoming := []\<rparr>))"
proof (rule must_reachI [OF assms(1)])
  fix y cw'
  assume y: "watch_inv w base cw0 y" "moved w cw ((ac, heap), g) y cw'" "\<nexists>z. own_step w y z"
  obtain ac' heap' g' where eq: "y = ((ac', heap'), g')" by (cases y) auto
  have cw': "fmlookup heap' w = Some cw'" "cw' = cw\<lparr>cacheIncoming := cacheIncoming cw'\<rparr>" "\<not> userStop cw'"
      "ac' = ac" "produced g' cw' = produced g cw"
    using y(2) moved_stop [OF y(2)] assms(3) unfolding moved_def eq by auto
  have live: "pc_ok (g_pc g') cw'" "g_closed g' = (g_pc g' = Returned)" "g_closed g = (g_pc g = Returned)" "pc_ok (g_pc g) cw"
    using y(1) assms(1,2) cw'(1) by (simp_all add: watch_inv_def local_inv_def eq)
  have "g_pc g' = AtSelect \<and> cacheIncoming cw' = []"
    using own_step_possible [OF y(1) [unfolded eq] cw'(1)] y(3) live(1) cw'(3) unfolding eq by fastforce
  moreover from this have "g_out g' = produced g cw"
    using cw'(5) by (simp add: produced_def)
  moreover have "\<not> g_closed g" "\<not> g_closed g'" using live assms(3) cw'(3) by (cases "g_pc g"; cases "g_pc g'"; simp)+
  ultimately show "(\<lambda>((ac', heap'), g'). ac' = ac \<and> g' = g\<lparr>g_pc := AtSelect, g_out := produced g cw\<rparr>
       \<and> fmlookup heap' w = Some (cw\<lparr>cacheIncoming := []\<rparr>)) y"
    using cw'(1,2,4) by (cases g'; cases g) (simp add: eq)
qed (use assms in simp)

text \<open>A stopped watch ends.\<close>

lemma stopped_watch_ends:
  assumes "watch_inv w base cw0 ((ac, heap), g)" "fmlookup heap w = Some cw" "userStop cw" "\<not> watcherLocked ac"
  shows "must_reach w (2 * (length (initialResources cw) + length (cacheIncoming cw)) + 5) ((ac, heap), g)
    (\<lambda>y. g_pc (snd y) = Returned \<and> g_closed (snd y) \<and> w \<notin> set (watchers (fst (fst y))))"
proof (rule must_reachI [OF assms(1)])
  fix y cw'
  assume y: "watch_inv w base cw0 y" "moved w cw ((ac, heap), g) y cw'" "\<nexists>z. own_step w y z"
  obtain ac' heap' g' where eq: "y = ((ac', heap'), g')" by (cases y) auto
  have "fmlookup heap' w = Some cw'" "userStop cw'" "\<not> watcherLocked ac'"
    using y(2) moved_stop [OF y(2)] assms(3,4) unfolding moved_def eq by auto
  with own_step_possible [OF y(1) [unfolded eq]] y(3) have ended: "g_pc g' = Returned" unfolding eq by blast
  with y(1) have "g_closed g'" "filter (\<lambda>v. v = w) (watchers ac') = []"
    by (auto simp: watch_inv_def local_inv_def registration_def eq)
  with ended show "g_pc (snd y) = Returned \<and> g_closed (snd y) \<and> w \<notin> set (watchers (fst (fst y)))"
    by (auto simp: eq filter_empty_conv)
qed (use assms in simp)

end
