(* ===== verification/Props_Watch.thy ===== *)
theory Props_Watch
  imports Watch_End
begin

text \<open>
  Properties of watches: the events a client receives, the end of a watch, and the deadlock
  on a full channel.
\<close>

text \<open>C29: take any interleaving after a watch request: as long as the user has not stopped the
  watch, the events received, in hand, still to be emitted from the initial list and queued
  form a stream that makes sense (an Added for an unknown name, a Modified with a new
  version, a Deleted for a known name), and unless the cache is deadlocked, replaying it
  gives exactly the names and versions the watch holds.\<close>

theorem watch_replica_coherent:
  assumes "ClusterREST_Watch rest ord w ctx options s = Done (Inr r) s0" "range_order ord"
    and "\<And>n c. lister_Get (cr_Lister rest) n = Inr c \<Longrightarrow> ClusterName c = n"
    and "w \<notin> set (watchers (fst s))" "watch_reach w s0 ((ac, heap), g)"
  shows "\<exists>cw0 cw. fmlookup (snd s0) w = Some cw0 \<and> fmlookup heap w = Some cw
    \<and> (\<not> userStop cw \<longrightarrow> stream_ok (watch_base cw0) (produced g cw)
         \<and> (\<not> watcherLocked ac \<longrightarrow> replica (watch_base cw0) (produced g cw) = knownResources cw))"
  using assms by (rule ClusterREST_Watch_inv) (auto simp: local_inv_def)

theorem watch_replica_coherent_witness:
  "\<exists>cw0 cw. fmlookup (snd (run_state (watch_request scoped_alice))) 7 = Some cw0
     \<and> fmlookup (snd (run_state (watch_request scoped_alice))) 7 = Some cw
     \<and> (\<not> userStop cw \<longrightarrow> stream_ok (watch_base cw0) (produced watch_start cw))"
proof -
  obtain r s0 where req: "ClusterREST_Watch (sample_rest [c1, c2]) id 7 (Some (Some scoped_alice)) (Some from_zero)
      sample_state = Done (Inr r) s0" "run_state (watch_request scoped_alice) = s0"
    by (rule watch_request_ok [OF scoped_request_accepted])
  from watch_replica_coherent [OF req(1) range_order_id(1) sample_rest_name sample_fresh sample_reach]
  show ?thesis unfolding req(2) by blast
qed

text \<open>C16: what one notification does to a watch whose channel has room: what it knows of the
  name becomes what the notification says (nothing if the user lost access, the current
  version if the user has access), other names are untouched, and exactly when something
  changed one event is queued, which takes a client from the old to the new knowledge.\<close>

theorem notification_queues_change:
  assumes "watchable_cache wc" "fmlookup heap w = Some cw" "length (cacheIncoming cw) < cacheIncoming_cap"
  shows "\<exists>heap' cw'. GroupMembershipChanged wc w n us gs (ac, heap) = Done () (ac, heap')
    \<and> fmlookup heap' w = Some cw' \<and> (\<forall>v. v \<noteq> w \<longrightarrow> fmlookup heap' v = fmlookup heap v)
    \<and> fmlookup (knownResources cw') n = target_version wc cw n us gs
    \<and> (\<forall>m. m \<noteq> n \<longrightarrow> fmlookup (knownResources cw') m = fmlookup (knownResources cw) m)
    \<and> (if target_version wc cw n us gs = fmlookup (knownResources cw) n then cw' = cw
       else \<exists>e. cacheIncoming cw' = cacheIncoming cw @ [e] \<and> event_ok (knownResources cw) e
              \<and> apply_event e (knownResources cw) = knownResources cw')"
proof (cases "wants_event wc cw n us gs")
  case False
  with watchable_cache.gmc_quiet [OF assms(1,2)] assms(2) show ?thesis
    by (auto simp: wants_event_def)
next
  case True
  obtain e err where e: "GroupMembershipChanged wc w n us gs (ac, heap) =
      push_event wc w e err (cw\<lparr>knownResources := apply_event e (knownResources cw)\<rparr>) (ac, heap)"
    "event_ok (knownResources cw) e"
    "fmlookup (apply_event e (knownResources cw)) n = target_version wc cw n us gs"
    "\<forall>m. m \<noteq> n \<longrightarrow> fmlookup (apply_event e (knownResources cw)) m = fmlookup (knownResources cw) m"
    by (rule watchable_cache.gmc_pushes [OF assms(1,2) True])
  let ?cw = "cw\<lparr>knownResources := apply_event e (knownResources cw), cacheIncoming := cacheIncoming cw @ [e]\<rparr>"
  have "GroupMembershipChanged wc w n us gs (ac, heap) = Done () (ac, fmupd w ?cw heap)"
    using e(1) assms(3) watchable_cache.push_room [OF assms(1)] by simp
  with True e(2-4) show ?thesis
    by (intro exI [of _ "fmupd w ?cw heap"] exI [of _ ?cw]) (simp add: wants_event_def)
qed

theorem notification_queues_change_witness:
  "\<exists>heap' cw'. GroupMembershipChanged (ClusterCache_watchable id (fst sample_state) (clusterInformer_lister id [c1, c2]))
       7 ''c1'' {||} {||} (fst sample_state, fmupd 7 sample_watch fmempty) = Done () (fst sample_state, heap')
     \<and> fmlookup heap' 7 = Some cw' \<and> fmlookup (knownResources cw') ''c1'' = None
     \<and> (\<exists>e. cacheIncoming cw' = cacheIncoming sample_watch @ [e])"
proof -
  let ?wc = "ClusterCache_watchable id (fst sample_state) (clusterInformer_lister id [c1, c2])"
  have room: "length (cacheIncoming sample_watch) < cacheIncoming_cap"
    by (simp add: sample_watch_def cacheIncoming_cap_def)
  have known: "fmlookup (knownResources sample_watch) ''c1'' = Some ''1''" by code_simp
  have target: "target_version ?wc sample_watch ''c1'' {||} {||} = None"
    by (simp add: target_version_def in_sight_def has_access_def sample_watch_def)
  have "fmlookup (fmupd 7 sample_watch fmempty) 7 = Some sample_watch" by simp
  from notification_queues_change [OF cluster_watches.watchable_cache_axioms this room,
      of id "fst sample_state" id "[c1, c2]" "''c1''" "{||}" "{||}" "fst sample_state"]
  show ?thesis unfolding target using known by auto
qed

text \<open>C14: a notification that would queue an event for a watch whose channel is full never
  returns: the goroutine of the pass waits for the mutex it holds itself, and every later
  attempt to add or remove a watcher, or to notify, waits for ever as well.\<close>

theorem full_channel_deadlocks:
  assumes "watchable_cache wc" "\<not> watcherLocked ac" "w \<in> set (watchers ac)" "fmlookup heap w = Some cw"
    and "length (cacheIncoming cw) = cacheIncoming_cap" "wants_event wc cw n us gs"
  shows "\<exists>s'. notifyWatchers (GroupMembershipChanged wc) n us gs (ac, heap) = Blocked s'
    \<and> watcherLocked (fst s') \<and> watchers (fst s') = watchers ac
    \<and> (\<forall>v. AddWatcher v s' = Blocked s' \<and> RemoveWatcher v s' = Blocked s')
    \<and> (\<forall>gmc m us gs. notifyWatchers gmc m us gs s' = Blocked s')"
proof -
  have "\<not> length (cacheIncoming cw) < cacheIncoming_cap" using assms(5) by simp
  from watchable_cache.for_each_gmc_full [OF assms(1,3,4,6) this, of "ac\<lparr>watcherLocked := True\<rparr>"]
  obtain h' where "for_each (\<lambda>v. GroupMembershipChanged wc v n us gs) (watchers ac)
      (ac\<lparr>watcherLocked := True\<rparr>, heap) = Blocked (ac\<lparr>watcherLocked := True\<rparr>, h')" by auto
  with assms(2) show ?thesis
    by (simp add: notifyWatchers_def with_lock_def AddWatcher_def RemoveWatcher_def)
qed

theorem full_channel_deadlocks_witness:
  "\<exists>s'. notifyWatchers (GroupMembershipChanged
         (ClusterCache_watchable id (fst sample_state) (clusterInformer_lister id [c1, c2]))) ''c1'' {||} {||}
       ((fst sample_state)\<lparr>watchers := [7]\<rparr>, fmupd 7 full_watch fmempty) = Blocked s'
     \<and> watcherLocked (fst s')"
proof -
  let ?wc = "ClusterCache_watchable id (fst sample_state) (clusterInformer_lister id [c1, c2])"
  have known: "fmlookup (knownResources sample_watch) ''c1'' = Some ''1''" by code_simp
  have wants: "wants_event ?wc full_watch ''c1'' {||} {||}"
    using known by (simp add: wants_event_def target_version_def in_sight_def has_access_def full_watch_def
        sample_watch_def)
  have full: "length (cacheIncoming full_watch) = cacheIncoming_cap"
    by (simp add: full_watch_def cacheIncoming_cap_def)
  have "\<not> watcherLocked ((fst sample_state)\<lparr>watchers := [7]\<rparr>)" "7 \<in> set (watchers ((fst sample_state)\<lparr>watchers := [7]\<rparr>))"
    "fmlookup (fmupd 7 full_watch fmempty) 7 = Some full_watch"
    using sample_state_facts(5) by simp_all
  from full_channel_deadlocks [OF cluster_watches.watchable_cache_axioms this full wants] show ?thesis by blast
qed

text \<open>C15: once the mutex is held for ever, no watch that is still registered ends: whatever
  happens next, stops by the user included, its result channel is never closed.\<close>

theorem deadlock_is_permanent:
  assumes "(watch_step w)\<^sup>*\<^sup>* ((ac, heap), g) ((ac', heap'), g')"
    and "watcherLocked ac" "g_pc g \<notin> {Closing, Returned}" "g_closed g \<longleftrightarrow> g_pc g = Returned"
  shows "watcherLocked ac' \<and> g_pc g' \<notin> {Closing, Returned} \<and> \<not> g_closed g'"
proof -
  have "g_closed g' \<longleftrightarrow> g_pc g' = Returned"
    using watch_steps_closed [OF assms(1)] assms(4) by simp
  with watch_steps_locked [OF assms(1)] assms(2,3) show ?thesis by simp
qed

theorem deadlock_is_permanent_witness:
  "\<not> g_closed (watch_start\<lparr>g_pc := AtSelect\<rparr>)
   \<and> (\<exists>y. (watch_step 7)\<^sup>*\<^sup>* (((fst sample_state)\<lparr>watcherLocked := True\<rparr>, fmupd 7 full_watch fmempty),
        watch_start\<lparr>g_pc := AtSelect\<rparr>) y \<and> userStop (the (fmlookup (snd (fst y)) 7)) \<and> \<not> g_closed (snd y))"
proof -
  let ?ac = "(fst sample_state)\<lparr>watcherLocked := True\<rparr>" and ?h = "fmupd 7 full_watch fmempty"
    and ?g = "watch_start\<lparr>g_pc := AtSelect\<rparr>"
  have stop: "(watch_step 7)\<^sup>*\<^sup>* ((?ac, ?h), ?g) ((?ac, Stop 7 ?h), ?g)"
    by (intro r_into_rtranclp stop)
  have "watcherLocked ?ac" "g_pc ?g \<notin> {Closing, Returned}" "g_closed ?g \<longleftrightarrow> g_pc ?g = Returned"
    by (simp_all add: watch_start_def)
  from deadlock_is_permanent [OF stop this] stop show ?thesis
    by (intro conjI exI [of _ "((?ac, Stop 7 ?h), ?g)"])
      (auto simp: watch_start_def Stop_def full_watch_def sample_watch_def)
qed

text \<open>C17: a watch never reports an error and never exceeds its channel: in every reachable
  state the error channel is empty, at most 1000 events are queued, the goroutine is not
  about to emit an error, and what the client got until it stopped are changes only.\<close>

theorem watch_never_errors:
  assumes "ClusterREST_Watch rest ord w ctx options s = Done (Inr r) s0" "range_order ord"
    and "\<And>n c. lister_Get (cr_Lister rest) n = Inr c \<Longrightarrow> ClusterName c = n"
    and "w \<notin> set (watchers (fst s))" "watch_reach w s0 ((ac, heap), g)"
  shows "\<exists>cw. fmlookup heap w = Some cw \<and> cacheError cw = [] \<and> length (cacheIncoming cw) \<le> 1000
    \<and> (\<forall>ev. g_pc g \<noteq> EmitError ev)
    \<and> (\<not> userStop cw \<longrightarrow> (\<forall>e \<in> set (g_out g). ev_Type e \<in> {Added, Modified, Deleted}))"
proof -
  obtain cw0 cw where cw: "fmlookup heap w = Some cw" "local_inv w (watch_base cw0) cw0 ac cw g"
    by (rule ClusterREST_Watch_inv [OF assms])
  have "\<forall>ev. g_pc g \<noteq> EmitError ev"
    using cw(2) by (cases "g_pc g") (simp_all add: local_inv_def)
  moreover have "\<forall>e \<in> set (g_out g). ev_Type e \<in> {Added, Modified, Deleted}" if "\<not> userStop cw"
    using stream_types [of "watch_base cw0" "produced g cw"] cw(2) that
    by (simp add: local_inv_def produced_def)
  ultimately show ?thesis
    using cw by (auto simp: local_inv_def cacheIncoming_cap_def)
qed

theorem watch_never_errors_witness:
  "\<exists>cw. fmlookup (snd (run_state (watch_request scoped_alice))) 7 = Some cw
     \<and> cacheError cw = [] \<and> length (cacheIncoming cw) \<le> 1000"
proof -
  obtain r s0 where req: "ClusterREST_Watch (sample_rest [c1, c2]) id 7 (Some (Some scoped_alice)) (Some from_zero)
      sample_state = Done (Inr r) s0" "run_state (watch_request scoped_alice) = s0"
    by (rule watch_request_ok [OF scoped_request_accepted])
  from watch_never_errors [OF req(1) range_order_id(1) sample_rest_name sample_fresh sample_reach]
  show ?thesis unfolding req(2) by blast
qed

text \<open>C18: a watch ends only when its user stops it: its result channel is closed only after
  \<open>Stop\<close>, and until it has removed itself it stays registered, exactly once.\<close>

theorem watch_ends_by_stop:
  assumes "ClusterREST_Watch rest ord w ctx options s = Done (Inr r) s0" "range_order ord"
    and "\<And>n c. lister_Get (cr_Lister rest) n = Inr c \<Longrightarrow> ClusterName c = n"
    and "w \<notin> set (watchers (fst s))" "watch_reach w s0 ((ac, heap), g)"
  shows "\<exists>cw. fmlookup heap w = Some cw \<and> (g_closed g \<longrightarrow> userStop cw)
    \<and> count (mset (watchers ac)) w = (if g_pc g \<in> {Closing, Returned} then 0 else 1)
    \<and> (\<not> userStop cw \<longrightarrow> g_pc g \<notin> {Removing, Closing, Returned})"
proof -
  obtain cw0 cw where cw: "fmlookup heap w = Some cw" "local_inv w (watch_base cw0) cw0 ac cw g"
    by (rule ClusterREST_Watch_inv [OF assms])
  have reg: "filter (\<lambda>v. v = w) (watchers ac) = registration w (g_pc g)"
    and stop: "pc_ok (g_pc g) cw" "g_closed g \<longleftrightarrow> g_pc g = Returned"
    using cw(2) by (simp_all add: local_inv_def)
  have "count (mset (watchers ac)) w = length (filter (\<lambda>v. v = w) (watchers ac))"
    by (rule count_filter)
  also have "\<dots> = (if g_pc g \<in> {Closing, Returned} then 0 else 1)"
    by (simp add: reg registration_def)
  finally show ?thesis
    using cw(1) stop by (cases "g_pc g") auto
qed

theorem watch_ends_by_stop_witness:
  "count (mset (watchers (fst (run_state (watch_request scoped_alice))))) 7 = 1"
proof -
  obtain r s0 where req: "ClusterREST_Watch (sample_rest [c1, c2]) id 7 (Some (Some scoped_alice)) (Some from_zero)
      sample_state = Done (Inr r) s0" "run_state (watch_request scoped_alice) = s0"
    by (rule watch_request_ok [OF scoped_request_accepted])
  from watch_ends_by_stop [OF req(1) range_order_id(1) sample_rest_name sample_fresh sample_reach]
  show ?thesis unfolding req(2) by (auto simp: watch_start_def)
qed

text \<open>C19: nothing queued is lost on a client that keeps receiving: from every reachable state of
  a watch that is not stopped, every run of steps of its goroutine ends, after at most two
  steps for each resource of the initial list and each queued event and five more, and where it
  ends the client has everything that was in hand, still initial or queued, in that order,
  the queue is empty, and the cache is untouched.\<close>

theorem watch_drains:
  assumes "ClusterREST_Watch rest ord w ctx options s = Done (Inr r) s0" "range_order ord"
    and "\<And>n c. lister_Get (cr_Lister rest) n = Inr c \<Longrightarrow> ClusterName c = n"
    and "w \<notin> set (watchers (fst s))" "watch_reach w s0 ((ac, heap), g)"
  shows "\<exists>cw. fmlookup heap w = Some cw \<and> (\<not> userStop cw \<longrightarrow>
    must_reach w (2 * (length (initialResources cw) + length (cacheIncoming cw)) + 5) ((ac, heap), g)
      (\<lambda>((ac', heap'), g'). ac' = ac \<and> g' = g\<lparr>g_pc := AtSelect, g_out := produced g cw\<rparr>
         \<and> fmlookup heap' w = Some (cw\<lparr>cacheIncoming := []\<rparr>)))"
proof -
  obtain cw0 cw where "fmlookup heap w = Some cw" "local_inv w (watch_base cw0) cw0 ac cw g"
    by (rule ClusterREST_Watch_inv [OF assms])
  then show ?thesis using drain_watch [of w "watch_base cw0" cw0 ac heap g cw] by (simp add: watch_inv_def)
qed

theorem watch_drains_witness:
  "\<exists>y. (own_step 7)\<^sup>*\<^sup>* (run_state (watch_request scoped_alice), watch_start) y
     \<and> g_out (snd y) = map initial_event [ManagedCluster c1]"
proof -
  obtain r s0 where req: "ClusterREST_Watch (sample_rest [c1, c2]) id 7 (Some (Some scoped_alice)) (Some from_zero)
      sample_state = Done (Inr r) s0" "run_state (watch_request scoped_alice) = s0"
    by (rule watch_request_ok [OF scoped_request_accepted])
  have cw: "case fmlookup (snd (run_state (watch_request scoped_alice))) 7 of None \<Rightarrow> False
      | Some cw \<Rightarrow> \<not> userStop cw \<and> initialResources cw = [ManagedCluster c1] \<and> cacheIncoming cw = []"
    by code_simp
  from watch_drains [OF req(1) range_order_id(1) sample_rest_name sample_fresh sample_reach] cw
  obtain k P where "must_reach 7 k ((fst s0, snd s0), watch_start) P"
    "\<And>y. P y \<Longrightarrow> g_out (snd y) = map initial_event [ManagedCluster c1]"
    unfolding req(2) by (fastforce simp: produced_def watch_start_def split: option.splits)
  with must_reach_ends show ?thesis unfolding req(2) prod.collapse by metis
qed

text \<open>C20: a stopped watch ends, unless the mutex is held for ever: whatever its \<open>select\<close>s choose,
  every run of steps of its goroutine ends, within the same bound, and where it ends the
  goroutine has returned, its result channel is closed and it is no longer registered.\<close>

theorem stopped_watch_closes:
  assumes "ClusterREST_Watch rest ord w ctx options s = Done (Inr r) s0" "range_order ord"
    and "\<And>n c. lister_Get (cr_Lister rest) n = Inr c \<Longrightarrow> ClusterName c = n"
    and "w \<notin> set (watchers (fst s))" "watch_reach w s0 ((ac, heap), g)"
    and "fmlookup heap w = Some cw" "userStop cw" "\<not> watcherLocked ac"
  shows "must_reach w (2 * (length (initialResources cw) + length (cacheIncoming cw)) + 5) ((ac, heap), g)
    (\<lambda>y. g_pc (snd y) = Returned \<and> g_closed (snd y) \<and> w \<notin> set (watchers (fst (fst y))))"
proof -
  obtain cw0 cw' where "fmlookup heap w = Some cw'" "local_inv w (watch_base cw0) cw0 ac cw' g"
    by (rule ClusterREST_Watch_inv [OF assms(1-5)])
  with assms(6-8) show ?thesis
    by (intro stopped_watch_ends [of w "watch_base cw0" cw0]) (simp_all add: watch_inv_def)
qed

theorem stopped_watch_closes_witness:
  "\<exists>y. (watch_step 7)\<^sup>*\<^sup>* (run_state (watch_request scoped_alice), watch_start) y \<and> g_closed (snd y)"
proof -
  obtain r s0 where req: "ClusterREST_Watch (sample_rest [c1, c2]) id 7 (Some (Some scoped_alice)) (Some from_zero)
      sample_state = Done (Inr r) s0" "run_state (watch_request scoped_alice) = s0"
    by (rule watch_request_ok [OF scoped_request_accepted])
  have "case fmlookup (snd (run_state (watch_request scoped_alice))) 7 of None \<Rightarrow> False
      | Some cw \<Rightarrow> \<not> userStop cw" "\<not> watcherLocked (fst (run_state (watch_request scoped_alice)))"
    by code_simp+
  then obtain cw where cw: "fmlookup (snd s0) 7 = Some cw" "\<not> userStop cw" "\<not> watcherLocked (fst s0)"
    unfolding req(2) by (auto split: option.splits)
  have step: "watch_step 7 ((fst s0, snd s0), watch_start) ((fst s0, Stop 7 (snd s0)), watch_start)"
    by (rule stop)
  have reached: "watch_reach 7 s0 ((fst s0, Stop 7 (snd s0)), watch_start)"
    by (rule reach_step [OF sample_reach step])
  have stopped: "fmlookup (Stop 7 (snd s0)) 7 = Some (cw\<lparr>userStop := True\<rparr>)"
    using cw by (simp add: Stop_def)
  have flag: "userStop (cw\<lparr>userStop := True\<rparr>)" by simp
  note ends = stopped_watch_closes
    [OF req(1) range_order_id(1) sample_rest_name sample_fresh reached stopped flag cw(3)]
  have "\<exists>y. (own_step 7)\<^sup>*\<^sup>* ((fst s0, Stop 7 (snd s0)), watch_start) y \<and> g_closed (snd y)"
    by (rule must_reach_ends [OF ends]) (simp, metis)
  then obtain y where y: "(own_step 7)\<^sup>*\<^sup>* ((fst s0, Stop 7 (snd s0)), watch_start) y" "g_closed (snd y)" by blast
  with step own_steps_watch [OF y(1)] show ?thesis
    unfolding req(2) prod.collapse by (intro exI [of _ y]) (simp add: converse_rtranclp_into_rtranclp)
qed

text \<open>C21: a user whose token carries no scopes gets a watch that sees nothing: unless a cluster
  is called \<open>*\<close>, its visible set is empty, and whatever happens the client never gets an
  event beyond the initial list.\<close>

theorem unscoped_watch_silent:
  assumes "ClusterREST_Watch rest ord w (Some (Some user)) options s = Done (Inr r) s0" "range_order ord"
    and "\<And>n c. lister_Get (cr_Lister rest) n = Inr c \<Longrightarrow> ClusterName c = n"
    and "w \<notin> set (watchers (fst s))" "watch_reach w s0 ((ac, heap), g)"
    and "user_extra user ScopesKey = []" "lister_List (cr_Lister rest) = Inr cs"
    and "''*'' \<notin> ClusterName ` set cs"
  shows "\<exists>cw0. fmlookup (snd s0) w = Some cw0 \<and> visibleResources cw0 = {||}
    \<and> set (g_out g) \<subseteq> set (map initial_event (initialResources cw0))"
proof -
  obtain cw0 cw where cw0: "registered w cw0 s0" "fmlookup (snd s0) w = Some cw0"
    and cw: "fmlookup heap w = Some cw" "local_inv w (watch_base cw0) cw0 ac cw g"
    by (rule ClusterREST_Watch_inv [OF assms(1-5)])
  obtain cw1 ns where cw1: "registered w cw1 s0" "visibleResources cw1 = fset_of_list (map ClusterName cs) |\<inter>| ns"
    "ScopesToVisibleNamespaces [] (cr_RoleLister rest) True = (ns, None)"
    by (rule ClusterREST_Watch_registered [OF assms(1-4)]) (use assms(6,7) in auto)
  have "cw1 = cw0" using cw0 cw1(1) by (simp add: registered_def)
  moreover have "ns = {|''*''|}" using cw1(3) by (simp add: ScopesToVisibleNamespaces_def)
  ultimately have "visibleResources cw0 = {||}" using cw1(2) assms(8) by auto
  moreover from this have "set (g_out g) \<subseteq> set (map initial_event (initialResources cw0))"
    using cw(2) by (auto simp: local_inv_def visible_event_def)
  ultimately show ?thesis using cw0(2) by blast
qed

theorem unscoped_watch_silent_witness:
  "\<exists>cw0. fmlookup (snd (run_state (watch_request alice))) 7 = Some cw0 \<and> visibleResources cw0 = {||}"
proof -
  obtain r s0 where req: "ClusterREST_Watch (sample_rest [c1, c2]) id 7 (Some (Some alice)) (Some from_zero)
      sample_state = Done (Inr r) s0" "run_state (watch_request alice) = s0"
    by (rule watch_request_ok [OF plain_request_accepted])
  have "user_extra alice ScopesKey = []" "lister_List (cr_Lister (sample_rest [c1, c2])) = Inr [c1, c2]"
    "''*'' \<notin> ClusterName ` set [c1, c2]"
    by (simp_all add: alice_def sample_user_def user_extra_def)
      (simp add: c1_def c2_def sample_cluster_def ClusterName_def)
  from unscoped_watch_silent [OF req(1) range_order_id(1) sample_rest_name sample_fresh sample_reach this]
  show ?thesis unfolding req(2) by blast
qed

text \<open>A watch request that is refused changes nothing, and it is refused only for a missing
  context, a missing user, an error in the user's scopes or an error of the cluster lister.\<close>

theorem refused_watch_is_neutral:
  assumes "ClusterREST_Watch rest ord w ctx options s = Done (Inl e) s'"
  shows "s' = s \<and> (ctx = None \<or> ctx = Some None
    \<or> (\<exists>u. ctx = Some (Some u)
         \<and> (snd (ScopesToVisibleNamespaces (user_extra u ScopesKey) (cr_RoleLister rest) True) = Some e
            \<or> lister_List (cr_Lister rest) = Inl e)))"
  using assms
  by (cases s) (auto simp: ClusterREST_Watch_def AddWatcher_eq Let_def
      split: option.splits sum.splits prod.splits if_splits)

theorem refused_watch_is_neutral_witness:
  "run_state (ClusterREST_Watch (sample_rest [c1, c2]) id 7 (Some None) None sample_state) = sample_state"
proof -
  have "ClusterREST_Watch (sample_rest [c1, c2]) id 7 (Some None) None sample_state
      = Done (Inl (ErrorText ''no user'')) sample_state"
    by (simp add: ClusterREST_Watch_def)
  from refused_watch_is_neutral [OF this] this show ?thesis by simp
qed

end
