(* ===== verification/Props_Access.thy ===== *)
theory Props_Access
  imports Sample_Hub
begin

text \<open>
  Properties of the access decisions: the reviewer, the rule matchers and the scopes.
\<close>

text \<open>C22: a review always answers, and answers exactly the access relation of RBAC: the users and
  groups it returns are those that some binding, through a role that resolves and a rule
  that matches, lets get the resource, plus the privileged ones.\<close>

theorem review_decides_access:
  "\<exists>rv. Review r grp resource n = Inr rv
     \<and> (\<forall>u. u \<in> set (review_Users rv) \<longleftrightarrow> may_get_user r grp resource n u)
     \<and> (\<forall>g. g \<in> set (review_Groups rv) \<longleftrightarrow> may_get_group r grp resource n g)"
  using rbac_reviewer.answers rbac_reviewer.users_iff rbac_reviewer.groups_iff by metis

text \<open>C23: errors fail closed: whatever goes wrong, the allowed subjects are the privileged ones
  and the subjects of the bindings that do resolve and match; the error is nil exactly if
  the bindings can be listed and every binding's role can be looked up.\<close>

theorem allowed_subjects_fail_closed:
  "set (fst (AllowedSubjects r (review_action grp resource n))) =
     set (privileged_subjects r) \<union> {subj. subject_granted r grp resource n subj}
   \<and> (snd (AllowedSubjects r (review_action grp resource n)) = None \<longleftrightarrow>
       (\<exists>bs. lister_List (clusterRoleBindingLister r) = Inr bs
          \<and> (\<forall>b \<in> set bs. \<exists>cr. lister_Get (clusterRoleLister r) (ref_Name (binding_RoleRef b)) = Inr cr)))"
proof (cases "lister_List (clusterRoleBindingLister r)")
  case (Inl e)
  then have "snd (AllowedSubjects r (review_action grp resource n)) \<noteq> None"
    by (simp add: AllowedSubjects_def)
  with Inl show ?thesis by (simp add: AllowedSubjects_set)
next
  case (Inr bs)
  let ?a = "review_action grp resource n"
  have "snd (AllowedSubjects r ?a) = NewAggregate (snd (bindings_loop r ?a bs (privileged_subjects r, [])))"
    by (simp add: AllowedSubjects_def Inr split: prod.split)
  then have "snd (AllowedSubjects r ?a) = None \<longleftrightarrow>
      (\<forall>b \<in> set bs. \<exists>rules. getRulesFromRoleRef r (binding_RoleRef b) = Inr rules)"
    unfolding sum_Inr_iff by (simp add: bindings_loop_errors) (auto split: sum.splits)
  then show ?thesis
    unfolding getRules_ok_iff by (simp add: AllowedSubjects_set Inr)
qed

theorem allowed_subjects_fail_closed_witness:
  "snd (AllowedSubjects (server_evaluator (role_lister []) (binding_lister [alice_binding]))
      (review_action cluster_group ''managedclusters'' ''c1'')) \<noteq> None"
proof -
  let ?r = "server_evaluator (role_lister []) (binding_lister [alice_binding])"
  have list: "lister_List (clusterRoleBindingLister ?r) = Inr [alice_binding]"
    and missing: "lister_Get (clusterRoleLister ?r) (ref_Name (binding_RoleRef alice_binding))
      = Inl (NotFound ''clusterrole'' ''c1-viewer'')"
    by code_simp+
  then show ?thesis
    using allowed_subjects_fail_closed [of ?r cluster_group "''managedclusters''" "''c1''"] by auto
qed

text \<open>C24: a rule allows a request exactly if a verb matches and, for a resource request, a group,
  a resource (by name, by wildcard, or by a wildcard on its subresource) and the name match,
  for a path request one of its URL patterns covers the path.\<close>

theorem rule_allows_iff:
  "RuleAllows a rule \<longleftrightarrow>
     (VerbAll \<in> set (Verbs rule) \<or> attr_Verb a \<in> set (Verbs rule))
     \<and> (if attr_ResourceRequest a
        then (APIGroupAll \<in> set (APIGroups rule) \<or> attr_APIGroup a \<in> set (APIGroups rule))
          \<and> (set (Resources rule) \<inter>
               (if attr_Subresource a = [] then {ResourceAll, attr_Resource a}
                else {ResourceAll, attr_Resource a @ ''/'' @ attr_Subresource a, ''*/'' @ attr_Subresource a})
             \<noteq> {})
          \<and> (ResourceNames rule = [] \<or> attr_Name a \<in> set (ResourceNames rule))
        else (\<exists>url \<in> set (NonResourceURLs rule). url_covers url (attr_Path a)))"
  by (auto simp: RuleAllows_def rbac_iff Let_def)

text \<open>C25: the scope parser accepts exactly the printed cluster role scopes, and returns what was
  printed: role names may contain colons, namespaces may not, and neither may be empty.\<close>

theorem scope_parser_iff:
  "parseClusterRoleScope scope = Inr (role, ns, escalating) \<longleftrightarrow>
     well_formed_scope role ns escalating \<and> scope = format_role_scope role ns escalating"
  by (rule parseClusterRoleScope_iff)

text \<open>C26: the rules of a scope that is not escalating carry no wildcard verb, resource or group,
  and name no listed escalating resource together with its group.\<close>

theorem plain_scope_safe:
  assumes "resolveRules (format_role_scope role ns False) getter = Inr rules"
    and "well_formed_scope role ns False" "rule \<in> set rules"
  shows "wildcard_free rule \<and> (\<forall>g r. escalating_pair g r \<longrightarrow>
           \<not> (g \<in> set (APIGroups rule) \<and> r \<in> set (Resources rule)))"
  using resolveRules_safe [OF assms] .

text \<open>The role of the concrete instances: it reads secrets and names config maps.\<close>

definition reader_role :: "string list \<Rightarrow> cluster_role" where
  "reader_role resources = \<lparr>role_Name = ''reader'', role_UID = ''r9'', role_ResourceVersion = ''1'',
     role_Rules = [\<lparr>Verbs = [''get''], APIGroups = [[], ''image.openshift.io''], Resources = resources,
                    ResourceNames = [], NonResourceURLs = []\<rparr>]\<rparr>"

theorem plain_scope_safe_witness:
  "case resolveRules (format_role_scope ''reader'' ''n'' False)
         (role_lister [reader_role [''secrets'', ''configmaps'']]) of
     Inl e \<Rightarrow> False
   | Inr rules \<Rightarrow> rules \<noteq> [] \<and> (\<forall>rule \<in> set rules. ''secrets'' \<notin> set (Resources rule))"
proof -
  let ?getter = "role_lister [reader_role [''secrets'', ''configmaps'']]"
  have "case resolveRules (format_role_scope ''reader'' ''n'' False) ?getter of
      Inl e \<Rightarrow> False | Inr rules \<Rightarrow> rules \<noteq> [] \<and> list_all (\<lambda>rule. [] \<in> set (APIGroups rule)) rules"
    by code_simp
  then obtain rules where rules: "resolveRules (format_role_scope ''reader'' ''n'' False) ?getter = Inr rules"
    and ne: "rules \<noteq> []" and grp: "\<forall>rule \<in> set rules. [] \<in> set (APIGroups rule)"
    unfolding list_all_iff by (cases "resolveRules (format_role_scope ''reader'' ''n'' False) ?getter") simp_all
  have "well_formed_scope ''reader'' ''n'' False" by (simp add: well_formed_scope_def)
  moreover have "escalating_pair [] ''secrets''"
    by (simp add: escalating_pair_def escalatingScopeResources_def)
  ultimately show ?thesis
    using plain_scope_safe [OF rules] ne grp by (auto simp: rules)
qed

text \<open>C27: a cluster role scope only narrows: every request its rules allow is allowed by the rules
  of the role it names.\<close>

theorem scope_only_narrows:
  assumes "resolveRules scope getter = Inr rules" "RulesAllow a rules"
  shows "\<exists>role ns escalating cr. scope = format_role_scope role ns escalating
    \<and> lister_Get getter role = Inr cr \<and> RulesAllow a (role_Rules cr)"
proof -
  obtain role ns esc where parsed: "ClusterRoleEvaluatorParseScope scope = Inr (role, ns, esc)"
    using assms(1) by (auto simp: resolveRules_def split: sum.splits)
  then have wf: "well_formed_scope role ns esc" "scope = format_role_scope role ns esc"
    by (simp_all add: ClusterRoleEvaluatorParseScope_iff)
  obtain cr where cr: "lister_Get getter role = Inr cr"
    "rules = (if esc then role_Rules cr else map removeEscalatingResources (filter wildcard_free (role_Rules cr)))"
    using assms unfolding wf(2) resolveRules_scope [OF wf(1)] by (auto split: sum.splits if_splits)
  have "RulesAllow a (role_Rules cr)"
  proof (cases esc)
    case False
    then obtain rule where "rule \<in> set (role_Rules cr)" "RuleAllows a (removeEscalatingResources rule)"
      using assms(2) cr(2) by (auto simp: RulesAllow_iff)
    then show ?thesis using removeEscalating_narrows by (auto simp: RulesAllow_iff)
  qed (use assms(2) cr(2) in simp)
  with wf(2) cr(1) show ?thesis by blast
qed

theorem scope_only_narrows_witness:
  "RulesAllow get_namespaces_attributes (role_Rules namespace_getter)"
proof -
  have allow: "case resolveRules ''role:ns:c1'' (role_lister [namespace_getter]) of
      Inl e \<Rightarrow> False | Inr rules \<Rightarrow> RulesAllow get_namespaces_attributes rules" by code_simp
  have only: "lister_Get (role_lister [namespace_getter]) role = Inr cr \<Longrightarrow> cr = namespace_getter" for role cr
    by (auto simp: role_lister_def indexer_Get_def file_objects_def split: option.splits if_splits)
  from allow show ?thesis
    using scope_only_narrows [of "''role:ns:c1''" "role_lister [namespace_getter]" _ get_namespaces_attributes] only
    by (fastforce split: sum.splits)
qed

text \<open>C28: the namespaces a list of scopes makes visible: all of them, written \<open>*\<close>, for no scopes or
  with a full or list-all scope; and the namespace of every cluster role scope whose rules
  let its user get namespaces.\<close>

theorem visible_namespaces_iff:
  "n |\<in>| fst (ScopesToVisibleNamespaces scopes getter ignoreUnhandled) \<longleftrightarrow>
     (n = ''*'' \<and> (scopes = [] \<or> UserFull \<in> set scopes \<or> UserListAllProjects \<in> set scopes))
     \<or> (\<exists>role escalating rules. format_role_scope role n escalating \<in> set scopes
          \<and> well_formed_scope role n escalating
          \<and> resolveRules (format_role_scope role n escalating) getter = Inr rules
          \<and> RulesAllow get_namespaces_attributes rules)"
proof (cases "scopes = []")
  case False
  then have "n |\<in>| fst (ScopesToVisibleNamespaces scopes getter ignoreUnhandled) \<longleftrightarrow>
      (\<exists>scope \<in> set scopes. \<exists>ns. scope_namespaces scope getter = Some (Inr ns) \<and> n \<in> set ns)"
    using scopes_loop_visible [of n scopes getter ignoreUnhandled "{||}" "[]"]
    by (simp add: ScopesToVisibleNamespaces_def case_prod_unfold Let_def)
  with False show ?thesis by (simp only: scope_shows_iff) blast
qed (simp add: ScopesToVisibleNamespaces_def)

text \<open>The in-place removal, which writes to the array it is reading, is a filter.\<close>

theorem remove_in_place:
  "remove array item = filter (\<lambda>x. x \<noteq> item) array"
  by (rule remove_eq_filter)


end
