(* ===== verification/Sample_Server.thy ===== *)
theory Sample_Server
  imports Sample_Hub
begin

text \<open>The sample server for the concrete instances of the properties of the whole.\<close>

text \<open>The concrete server: started, and one pass over the sample hub.\<close>

definition sample_server :: filter_server where
  "sample_server = (case NewFilterServer (Inr ()) (\<lambda>_. None) NewScheme of Inl e \<Rightarrow> undefined | Inr fs \<Rightarrow> fs)"

definition sample_running :: "nat \<Rightarrow> server_state" where
  "sample_running k = (server_start sample_server)
     \<lparr>sv_clusters := sample_state, sv_clusters_pc := Idle, sv_history := replicate k full_hub\<rparr>"

lemma sample_server_new: "NewFilterServer (Inr ()) (\<lambda>_. None) NewScheme = Inr sample_server"
  by (simp add: sample_server_def NewFilterServer_def Let_def)

lemma sample_start:
  "sv_clusters (server_start sample_server) = (NewClusterCache, fmempty)"
  "sv_history (server_start sample_server) = []" "sv_clusters_pc (server_start sample_server) = Idle"
  by (simp_all add: server_start_def sample_server_def NewFilterServer_def Let_def)

lemma sample_running_reach: "\<exists>k. server_reach sample_server (sample_running k)"
proof -
  obtain s' where s': "ClusterCache_synchronize full_hub sample_orders (NewClusterCache, fmempty) = Done () s'"
    using sample_pass [of full_hub sample_orders NewClusterCache] sample_state_facts(4,5)
    by (auto simp: sample_state_pair)
  then have "sample_state = s'" by (simp add: sample_state_def)
  with reach_pass [OF _ sample_hub_ok sample_orders_fair server_reach_start sample_start(3) refl,
      of 1 "[c1, c2]" "[alice_binding, ops_binding]"] s' show ?thesis
    by (simp add: sample_start server_started [OF sample_server_new] sample_running_def)
qed

end
