(* ===== verification/Props_Server.thy ===== *)
theory Props_Server
  imports Sample_Server
begin

text \<open>
  Properties of the assembled server: who can ever be listed a cluster, what the wiring of
  the caches implies, and the startup chain.
\<close>

text \<open>C2: at any time in the life of the server, whatever the interleaving of passes, requests and
  watches, and also in the middle of a pass whose ticks read different states of the hub, a
  cluster is listed to a user only if RBAC, on the bindings and roles that some tick read,
  let the user get it.\<close>

theorem listed_was_granted:
  assumes "NewFilterServer newServer install scheme = Inr fs" "server_reach fs sv"
    and "ClusterREST_List rest ord (Some u) options (sv_clusters sv) = Inr (ManagedClusterList items)"
    and "range_order ord" "\<And>n c. lister_Get (cr_Lister rest) n = Inr c \<Longrightarrow> ClusterName c = n"
    and "c \<in> set items"
  shows "\<exists>hub \<in> set (sv_history sv). hub_lists hub u (ClusterName c)"
proof -
  have "granted_inv (sv_history sv) (fst (sv_clusters sv))"
    using server_reach_inv [OF assms(1,2)] by (simp add: server_inv_def)
  moreover have "ClusterName c |\<in>| listNames (fst (sv_clusters sv)) u"
  proof -
    let ?sel = "fst (InternalListOptionsToSelectors options)"
    have "cluster_list_loop (cr_Lister rest) ?sel
        (ord (sorted_list_of_fset (listNames (fst (sv_clusters sv)) u))) [] = Inr items"
      using assms(3) by (auto simp: ClusterREST_List_def ClusterCache_List_def split: prod.splits sum.splits)
    from clusters.loop_set [OF this] assms(4-6) show ?thesis
      by (auto simp: sorted_list_of_fset.rep_eq)
  qed
  ultimately show ?thesis by (rule granted_lists)
qed

theorem listed_was_granted_witness:
  "hub_lists full_hub alice (ClusterName c1)"
proof -
  have "ClusterREST_List (sample_rest [c1, c2]) id (Some alice) None sample_state = Inr (ManagedClusterList [c1])"
    by code_simp
  then have list: "ClusterREST_List (sample_rest [c1, c2]) id (Some alice) None (sv_clusters (sample_running k))
      = Inr (ManagedClusterList [c1])" for k
    by (simp add: sample_running_def)
  obtain k where "server_reach sample_server (sample_running k)"
    using sample_running_reach ..
  from listed_was_granted [OF sample_server_new this list range_order_id(1) sample_rest_name, of c1]
  show ?thesis by (auto simp: sample_running_def)
qed





lemma clusterset_cache_lists_nothing:
  assumes "caches ac = caches NewClusterSetCache"
  shows "listNames ac u = {||}"
proof -
  have "userSubjectRecordStore ac = fmempty" "groupSubjectRecordStore ac = fmempty"
    using arg_cong [OF assms, of userSubjectRecordStore] arg_cong [OF assms, of groupSubjectRecordStore]
    by (simp_all add: NewClusterSetCache_def NewAutchCache_def)
  then show ?thesis
    by (intro fset_eqI) (simp add: listNames_subject_names)
qed

text \<open>C36: the server never runs the synchronisation of the cluster sets (the call is commented
  out), so that, for ever, whatever sets exist and whatever RBAC grants, listing cluster sets
  succeeds with an empty list for every user, and every watch of cluster sets starts with an
  empty initial list and knowing nothing.\<close>

theorem clustersets_always_empty:
  assumes "NewFilterServer newServer install scheme = Inr fs" "server_reach fs sv" "range_order ord"
  shows "ClusterSetREST_List rest ord (Some u) options (sv_clustersets sv) = Inr (ManagedClusterSetList [])
    \<and> (\<forall>w ctx r s'. ClusterSetREST_Watch rest ord w ctx options (sv_clustersets sv) = Done (Inr r) s' \<longrightarrow>
         (\<exists>cw. fmlookup (snd s') w = Some cw \<and> initialResources cw = [] \<and> knownResources cw = fmempty))"
proof -
  have "caches (fst (sv_clustersets sv)) = caches NewClusterSetCache"
    using server_reach_inv [OF assms(1,2)] by (simp add: server_inv_def)
  then have unlisted: "listNames (fst (sv_clustersets sv)) u = {||}" for u
    by (rule clusterset_cache_lists_nothing)
  have range: "ord (sorted_list_of_fset {||}) = []"
    using range_order_set [OF assms(3), of "sorted_list_of_fset {||}"] by (simp add: sorted_list_of_fset.rep_eq)
  have "\<exists>cw. fmlookup (snd s') w = Some cw \<and> initialResources cw = [] \<and> knownResources cw = fmempty"
    if watch: "ClusterSetREST_Watch rest ord w ctx options (sv_clustersets sv) = Done (Inr r) s'" for w ctx r s'
  proof -
    obtain user vis where "watch_outcome w user vis
        (ClusterSetCache_watchable ord (fst (sv_clustersets sv)) (csr_Lister rest)) (sv_clustersets sv) s'"
      using ClusterSetREST_Watch_ok [OF watch] by metis
    moreover have "ClusterSetCache_ListObjects ord (fst (sv_clustersets sv)) (csr_Lister rest) user
        = Inr (ManagedClusterSetList [])"
      unfolding ClusterSetCache_ListObjects_def ClusterSetCache_List_def Let_def unlisted range by simp
    ultimately show ?thesis
      by (auto simp: watch_outcome_def NewCacheWatcher_def ClusterSetCache_watchable_def)
  qed
  then show ?thesis
    by (simp add: ClusterSetREST_List_def ClusterSetCache_List_def unlisted range split: prod.split)
qed

theorem clustersets_always_empty_witness:
  "ClusterSetREST_List \<lparr>csr_client_Get = \<lambda>_ _ _. Inl (ErrorText ''none''),
       csr_Lister = clustersetInformer_lister id [\<lparr>mcs_Meta = empty_meta ''s1'', mcs_Body = []\<rparr>],
       csr_RoleLister = role_lister [fleet_viewer]\<rparr> id (Some bob) None (sv_clustersets (server_start sample_server))
   = Inr (ManagedClusterSetList [])"
  (is "ClusterSetREST_List ?rest _ _ _ _ = _")
proof -
  obtain k where "server_reach sample_server (sample_running k)"
    using sample_running_reach ..
  from clustersets_always_empty [OF sample_server_new this range_order_id(1), of ?rest bob None]
  show ?thesis by (simp add: sample_running_def)
qed









end
