(* ===== verification/Watch_Sync.thy ===== *)
theory Watch_Sync
  imports Watch_Request
begin

text \<open>
  Watches and listings together: what a watch should know, and how one notification and one
  request of a pass bring it there.
\<close>

section \<open>What a watch should know\<close>

definition cluster_version :: "hub \<Rightarrow> string \<Rightarrow> string option" where
  "cluster_version hub n =
     (case lister_Get (hub_clusters hub) n of
        Inl err \<Rightarrow> None | Inr c \<Rightarrow> Some (meta_ResourceVersion (mc_Meta c)))"

definition listed_version :: "hub \<Rightarrow> auth_cache \<Rightarrow> user_info \<Rightarrow> string \<Rightarrow> string option" where
  "listed_version hub ac u n = (if n |\<in>| listNames ac u then cluster_version hub n else None)"

text \<open>On the names its scopes let it see, the watch knows what its user lists, at this version.\<close>

definition follows :: "hub \<Rightarrow> auth_cache \<Rightarrow> watch \<Rightarrow> bool" where
  "follows hub ac cw \<longleftrightarrow>
     (\<forall>n. in_sight cw n \<longrightarrow> fmlookup (knownResources cw) n = listed_version hub ac (w_user cw) n)"

text \<open>A cache between two passes: its records are of this hub, at the versions of this hub.\<close>

definition settled :: "hub \<Rightarrow> auth_cache \<Rightarrow> bool" where
  "settled hub ac \<longleftrightarrow>
     cluster_cache_ok ac
     \<and> (\<forall>n r. fmlookup (reviewRecordStore ac) n = Some r \<longrightarrow>
          n |\<in>| allKnownNames ac \<and> cluster_version hub n = Some (rq_resourceVersion (rr_request r)))"

text \<open>
  What an informer of clusters guarantees: one store, which fails only with NotFound, and
  every object of it has a version.
\<close>

definition hub_served :: "hub \<Rightarrow> bool" where
  "hub_served hub \<longleftrightarrow>
     hub_ok hub
     \<and> lister_contract ClusterName (lister_List (hub_clusters hub)) (lister_Get (hub_clusters hub))
     \<and> (\<forall>n e. lister_Get (hub_clusters hub) n = Inl e \<longrightarrow> IsNotFound e)
     \<and> (\<exists>cs. lister_List (hub_clusters hub) = Inr cs \<and> (\<forall>c \<in> set cs. meta_ResourceVersion (mc_Meta c) \<noteq> []))"

lemma hub_served_ok [simp]: "hub_served hub \<Longrightarrow> hub_ok hub"
  by (simp add: hub_served_def)

lemma hub_names_version:
  assumes "hub_served hub"
  shows "n |\<in>| hub_names hub \<longleftrightarrow> cluster_version hub n \<noteq> None"
proof -
  obtain cs where cs: "lister_List (hub_clusters hub) = Inr cs"
    and contract: "lister_contract ClusterName (lister_List (hub_clusters hub)) (lister_Get (hub_clusters hub))"
    using assms by (auto simp: hub_served_def)
  from lister_contract.listed_name_iff [OF contract cs, of n] show ?thesis
    by (auto simp: hub_names_def cs cluster_version_def split: sum.splits)
qed

lemma resource_request_version:
  assumes "hub_served hub" "ClusterCache_ListResources (hub_clusters hub) = Inr rqs" "rq \<in> set rqs"
  shows "cluster_version hub (rq_name rq) = Some (rq_resourceVersion rq) \<and> rq_resourceVersion rq \<noteq> []"
proof -
  obtain cs where cs: "lister_List (hub_clusters hub) = Inr cs" "\<forall>c \<in> set cs. meta_ResourceVersion (mc_Meta c) \<noteq> []"
    and contract: "lister_contract ClusterName (lister_List (hub_clusters hub)) (lister_Get (hub_clusters hub))"
    using assms(1) by (auto simp: hub_served_def)
  from assms(2,3) obtain c where c: "c \<in> set cs" "rq_name rq = ClusterName c"
    "rq_resourceVersion rq = meta_ResourceVersion (mc_Meta c)"
    by (auto simp: ClusterCache_ListResources_def cs cluster_requests_map)
  from lister_contract.listed_get [OF contract cs(1) c(1)] c cs(2) show ?thesis
    by (simp add: cluster_version_def)
qed

text \<open>Being listed is a matter of the record of the name.\<close>

definition record_lists :: "review_record option \<Rightarrow> user_info \<Rightarrow> bool" where
  "record_lists known u \<longleftrightarrow>
     (case known of None \<Rightarrow> False
      | Some r \<Rightarrow> user_Name u \<in> set (rr_users r) \<or> set (user_Groups u) \<inter> set (rr_groups r) \<noteq> {})"

lemma listNames_record:
  "cluster_cache_ok ac \<Longrightarrow> n |\<in>| listNames ac u \<longleftrightarrow> record_lists (fmlookup (reviewRecordStore ac) n) u"
  by (auto simp: cluster_cache_ok_def listNames_view view_lists_def access_view_def record_access_def
      record_lists_def split: option.split)

section \<open>One notification that returns\<close>

lemma target_version_idem:
  assumes "w_user cw' = w_user cw" "visibleResources cw' = visibleResources cw"
    and "fmlookup (knownResources cw') n = target_version wc cw n us gs"
  shows "target_version wc cw' n us gs = target_version wc cw n us gs"
  using assms by (auto simp: target_version_def in_sight_def has_access_def split: sum.split)

text \<open>What changes in a watch: what it knows of one name.\<close>

definition watch_learns :: "string \<Rightarrow> string option \<Rightarrow> watch \<Rightarrow> watch \<Rightarrow> bool" where
  "watch_learns n v cw cw' \<longleftrightarrow>
     w_user cw' = w_user cw \<and> visibleResources cw' = visibleResources cw
     \<and> fmlookup (knownResources cw') n = v
     \<and> (\<forall>m. m \<noteq> n \<longrightarrow> fmlookup (knownResources cw') m = fmlookup (knownResources cw) m)"

lemma watch_learns_refl: "watch_learns n (fmlookup (knownResources cw) n) cw cw"
  by (simp add: watch_learns_def)

lemma watch_learns_trans: "watch_learns n v a b \<Longrightarrow> watch_learns n v' b c \<Longrightarrow> watch_learns n v' a c"
  by (simp add: watch_learns_def)

context watchable_cache
begin

lemma gmc_Done_learns:
  assumes "GroupMembershipChanged wc w n us gs (ac, heap) = Done u s'" "fmlookup heap w = Some cw" "watcherLocked ac"
  shows "fst s' = ac \<and> (\<exists>cw'. fmlookup (snd s') w = Some cw' \<and> watch_learns n (target_version wc cw n us gs) cw cw')"
proof (cases "wants_event wc cw n us gs")
  case False
  with gmc_quiet [OF assms(2) False] assms(1,2) show ?thesis
    by (auto simp: wants_event_def watch_learns_def)
next
  case True
  obtain e err where e: "GroupMembershipChanged wc w n us gs (ac, heap) =
      push_event wc w e err (cw\<lparr>knownResources := apply_event e (knownResources cw)\<rparr>) (ac, heap)"
    "fmlookup (apply_event e (knownResources cw)) n = target_version wc cw n us gs"
    "\<forall>m. m \<noteq> n \<longrightarrow> fmlookup (apply_event e (knownResources cw)) m = fmlookup (knownResources cw) m"
    using gmc_pushes [OF assms(2) True] by metis
  show ?thesis
  proof (cases "length (cacheIncoming cw) < cacheIncoming_cap")
    case True
    with e assms(1) show ?thesis by (auto simp: push_room watch_learns_def)
  next
    case False
    with e(1) assms(1,3) show ?thesis by (simp add: push_full)
  qed
qed

lemma for_each_gmc_learns:
  assumes "for_each (\<lambda>v. GroupMembershipChanged wc v n us gs) vs (ac, heap) = Done u s'"
    and "fmlookup heap w = Some cw" "watcherLocked ac"
  shows "fst s' = ac \<and> (\<exists>cw'. fmlookup (snd s') w = Some cw'
    \<and> watch_learns n (if w \<in> set vs then target_version wc cw n us gs else fmlookup (knownResources cw) n) cw cw')"
  using assms(1,2)
proof (induction vs arbitrary: heap cw)
  case Nil
  then show ?case by (auto simp: watch_learns_refl)
next
  case (Cons v vs)
  from Cons.prems(1) obtain x s1 where s1: "GroupMembershipChanged wc v n us gs (ac, heap) = Done x s1"
    and rest: "for_each (\<lambda>v. GroupMembershipChanged wc v n us gs) vs s1 = Done u s'"
    by (auto simp: bind_run_Done_iff)
  show ?case
  proof (cases "v = w")
    case True
    from gmc_Done_learns [OF s1 [unfolded True] Cons.prems(2) assms(3)] obtain h1 cw1 where
      cw1: "s1 = (ac, h1)" "fmlookup h1 w = Some cw1" "watch_learns n (target_version wc cw n us gs) cw cw1"
      by (cases s1) auto
    let ?v = "if w \<in> set vs then target_version wc cw1 n us gs else fmlookup (knownResources cw1) n"
    have v: "?v = target_version wc cw n us gs"
      using cw1(3) target_version_idem [of cw1 cw n wc us gs] by (simp add: watch_learns_def)
    from Cons.IH [OF rest [unfolded cw1(1)] cw1(2)] obtain cw' where
      "fst s' = ac" "fmlookup (snd s') w = Some cw'" "watch_learns n ?v cw1 cw'"
      by blast
    with watch_learns_trans [OF cw1(3)] True show ?thesis unfolding v by auto
  next
    case False
    from gmc_other [OF False assms(3) s1] obtain h1 where "s1 = (ac, h1)" "fmlookup h1 w = Some cw"
      using Cons.prems(2) by (cases s1) auto
    with Cons.IH [of h1 cw] rest False show ?thesis by (cases "w \<in> set vs") auto
  qed
qed

lemma notify_learns:
  assumes "notifyWatchers (GroupMembershipChanged wc) n us gs (ac, heap) = Done u s'"
    and "fmlookup heap w = Some cw" "w \<in> set (watchers ac)"
  shows "fst s' = ac \<and> (\<exists>cw'. fmlookup (snd s') w = Some cw' \<and> watch_learns n (target_version wc cw n us gs) cw cw')"
proof -
  have unlocked: "\<not> watcherLocked ac"
    using assms(1) by (auto simp: notifyWatchers_def with_lock_def)
  let ?ac = "ac\<lparr>watcherLocked := True\<rparr>"
  obtain s1 where s1: "for_each (\<lambda>v. GroupMembershipChanged wc v n us gs) (watchers ac) (?ac, heap) = Done () s1"
    "s' = ((fst s1)\<lparr>watcherLocked := False\<rparr>, snd s1)"
    using assms(1) unlocked by (auto simp: notifyWatchers_def with_lock_def bind_run_Done_iff split: prod.splits)
  from for_each_gmc_learns [OF s1(1) assms(2)] s1(2) unlocked assms(3) show ?thesis by auto
qed

end

section \<open>One request of a pass\<close>

text \<open>What a watch knows of \<open>n\<close> once the record of \<open>n\<close> has been renewed.\<close>

definition renewed_version :: "hub \<Rightarrow> review_record option \<Rightarrow> watch \<Rightarrow> string \<Rightarrow> string option" where
  "renewed_version hub known cw n =
     (if \<not> in_sight cw n then fmlookup (knownResources cw) n
      else if \<not> record_lists known (w_user cw) then None
      else case cluster_version hub n of None \<Rightarrow> fmlookup (knownResources cw) n | Some v \<Rightarrow> Some v)"

lemma renewed_target:
  assumes "known = Some r" "rr_users r = us" "rr_groups r = gs"
  shows "target_version (ClusterCache_watchable ord a (hub_clusters hub)) cw n (fset_of_list us) (fset_of_list gs)
    = renewed_version hub known cw n"
  using assms
  by (auto simp: target_version_def renewed_version_def has_access_def record_lists_def cluster_version_def
      ClusterCache_watchable_def ClusterCache_Get_def GetResourceVersion_def split: sum.split)

lemma gone_target:
  "target_version wc cw n {||} {||} = (if in_sight cw n then None else fmlookup (knownResources cw) n)"
  by (simp add: target_version_def has_access_def)

lemma cluster_request_learns:
  assumes "syncRequest (cluster_env hub mo) (GroupMembershipChanged (ClusterCache_watchable ord a (hub_clusters hub)))
      rq (ac, heap) = Done e s'"
    and "hub_ok hub" "cluster_cache_ok ac" "fmlookup heap w = Some cw" "w \<in> set (watchers ac)"
  shows "fst s' = request_step (cluster_env hub mo) rq ac
    \<and> (\<exists>cw'. fmlookup (snd s') w = Some cw' \<and> (if skipped ac rq then cw' = cw
         else watch_learns (rq_name rq)
           (renewed_version hub (fmlookup (reviewRecordStore (fst s')) (rq_name rq)) cw (rq_name rq)) cw cw'))"
proof (cases "skipped ac rq")
  case True
  with assms(1,4) show ?thesis by (auto simp: syncRequest_eq request_step_def)
next
  case False
  let ?wc = "ClusterCache_watchable ord a (hub_clusters hub)"
  let ?ac = "request_step (cluster_env hub mo) rq ac"
  obtain rv where rv: "reviewed (cluster_env hub mo) ac (rq_name rq) = Inr rv"
    using cluster_env_answers [of hub mo] unfolding always_answers_def reviewed_def by blast
  have notify: "notifyWatchers (GroupMembershipChanged ?wc) (rq_name rq) (fset_of_list (review_Users rv))
      (fset_of_list (review_Groups rv)) (?ac, heap) = Done () s'"
    using assms(1) False rv by (auto simp: syncRequest_eq bind_run_Done_iff)
  have wc: "watchable_cache ?wc"
    using assms(2) by (intro cluster_watchable_contract) (auto simp: hub_ok_def)
  have new: "fmlookup (reviewRecordStore ?ac) (rq_name rq)
      = Some (cached_record rq (fmlookup (reviewRecordStore ac) (rq_name rq)) rv)"
    using False rv by (simp add: request_step_def apply_review_def Let_def)
  from watchable_cache.notify_learns [OF wc notify assms(4)] assms(5) False
    renewed_target [OF new, of "review_Users rv" "review_Groups rv" ord a hub cw "rq_name rq"]
  show ?thesis by simp
qed

end
