(* ===== verification/Pass_Assertions.thy ===== *)
theory Pass_Assertions
  imports Watch_Sync
begin

text \<open>
  A pass that returns keeps every registered watch in step with what its user can list. The
  proof follows the ticks of the pass with an assertion at each program point.
\<close>

section \<open>The assertions of a pass\<close>

text \<open>
  The pass started from the cache \<open>ac0\<close> and the watch \<open>cw0\<close>. The names in \<open>done\<close> have a record
  at the version of the hub; a name of the hub is either untouched, in its record and in
  the watch, or the watch knows of it what its record says; the names that are not of the
  hub and that the watch still knows are in \<open>pending\<close>.
\<close>

definition following ::
  "hub \<Rightarrow> auth_cache \<Rightarrow> watch \<Rightarrow> string fset \<Rightarrow> string set \<Rightarrow> auth_cache \<Rightarrow> watch \<Rightarrow> bool" where
  "following hub ac0 cw0 done pending ac cw \<longleftrightarrow>
     cluster_cache_ok ac \<and> w_user cw = w_user cw0 \<and> visibleResources cw = visibleResources cw0
     \<and> (\<forall>n. n |\<in>| done \<longrightarrow> (\<exists>r. fmlookup (reviewRecordStore ac) n = Some r
          \<and> cluster_version hub n = Some (rq_resourceVersion (rr_request r))))
     \<and> (\<forall>n v. in_sight cw0 n \<and> cluster_version hub n = Some v \<longrightarrow>
          fmlookup (reviewRecordStore ac) n = fmlookup (reviewRecordStore ac0) n
            \<and> fmlookup (knownResources cw) n = fmlookup (knownResources cw0) n
          \<or> fmlookup (knownResources cw) n
            = (if record_lists (fmlookup (reviewRecordStore ac) n) (w_user cw0) then Some v else None))
     \<and> (\<forall>n. in_sight cw0 n \<and> cluster_version hub n = None \<and> fmlookup (knownResources cw) n \<noteq> None
          \<longrightarrow> n \<in> pending)"

fun pass_assertion :: "hub \<Rightarrow> auth_cache \<Rightarrow> watch \<Rightarrow> pass_pc \<Rightarrow> auth_cache \<Rightarrow> watch \<Rightarrow> bool" where
  "pass_assertion hub ac0 cw0 Idle ac cw = (settled hub ac \<and> follows hub ac cw
     \<and> w_user cw = w_user cw0 \<and> visibleResources cw = visibleResources cw0)"
| "pass_assertion hub ac0 cw0 (AtRequests rqs names st) ac cw =
     (following hub ac0 cw0 names (fset (allKnownNames ac0)) ac cw
      \<and> allKnownNames ac = allKnownNames ac0
      \<and> (\<forall>rq \<in> set rqs. cluster_version hub (rq_name rq) = Some (rq_resourceVersion rq) \<and> rq_resourceVersion rq \<noteq> [])
      \<and> names |\<union>| fset_of_list (map rq_name rqs) = hub_names hub)"
| "pass_assertion hub ac0 cw0 (AtGone ns names st) ac cw =
     (following hub ac0 cw0 names (set ns) ac cw \<and> names = hub_names hub \<and> (\<forall>n \<in> set ns. n |\<notin>| names)
      \<and> (\<forall>n. n |\<notin>| names \<longrightarrow> fmlookup (reviewRecordStore ac) n = None))"
| "pass_assertion hub ac0 cw0 Stuck ac cw = True"
| "pass_assertion hub ac0 cw0 (AtBindings names st) ac cw =
     (following hub ac0 cw0 names (fset (allKnownNames ac0)) ac cw
      \<and> allKnownNames ac = allKnownNames ac0 \<and> names = hub_names hub)"
| "pass_assertion hub ac0 cw0 (AtRoles bs names st) ac cw =
     (following hub ac0 cw0 names (fset (allKnownNames ac0)) ac cw
      \<and> allKnownNames ac = allKnownNames ac0 \<and> names = hub_names hub)"
| "pass_assertion hub ac0 cw0 (AtNames b cr ns bs names st) ac cw =
     (following hub ac0 cw0 names (fset (allKnownNames ac0)) ac cw
      \<and> allKnownNames ac = allKnownNames ac0 \<and> names = hub_names hub)"
| "pass_assertion hub ac0 cw0 (AtPurge names st) ac cw =
     (following hub ac0 cw0 names (fset (allKnownNames ac0)) ac cw
      \<and> allKnownNames ac = allKnownNames ac0 \<and> names = hub_names hub)"

lemma following_frame:
  assumes "following hub ac0 cw0 done pending ac cw"
  shows "cluster_cache_ok ac" "w_user cw = w_user cw0" "visibleResources cw = visibleResources cw0"
    and "in_sight cw n = in_sight cw0 n"
  using assms by (auto simp: following_def in_sight_def)

lemma following_done:
  assumes "following hub ac0 cw0 done pending ac cw" "n |\<in>| done"
  obtains r where "fmlookup (reviewRecordStore ac) n = Some r"
    "cluster_version hub n = Some (rq_resourceVersion (rr_request r))"
  using assms unfolding following_def by blast

lemma following_known:
  assumes "following hub ac0 cw0 done pending ac cw" "in_sight cw0 n" "cluster_version hub n = Some v"
  obtains "fmlookup (reviewRecordStore ac) n = fmlookup (reviewRecordStore ac0) n"
    "fmlookup (knownResources cw) n = fmlookup (knownResources cw0) n"
  | "fmlookup (knownResources cw) n
      = (if record_lists (fmlookup (reviewRecordStore ac) n) (w_user cw0) then Some v else None)"
  using assms unfolding following_def by blast

lemma following_pending:
  "following hub ac0 cw0 done pending ac cw \<Longrightarrow> in_sight cw0 n \<Longrightarrow> cluster_version hub n = None \<Longrightarrow> n \<notin> pending
     \<Longrightarrow> fmlookup (knownResources cw) n = None"
  unfolding following_def by blast

text \<open>The start and the end of a pass.\<close>

lemma following_start:
  assumes "settled hub0 ac" "follows hub0 ac cw"
  shows "following hub ac cw {||} (fset (allKnownNames ac)) ac cw"
proof -
  have "n \<in> fset (allKnownNames ac)" if "in_sight cw n" "fmlookup (knownResources cw) n \<noteq> None" for n
  proof -
    have "n |\<in>| listNames ac (w_user cw)"
      using that assms(2) by (auto simp: follows_def listed_version_def split: if_splits)
    then obtain r where "fmlookup (reviewRecordStore ac) n = Some r"
      using assms(1) by (auto simp: settled_def listNames_record record_lists_def split: option.splits)
    with assms(1) show ?thesis by (auto simp: settled_def)
  qed
  with assms(1) show ?thesis by (auto simp: following_def settled_def)
qed

lemma following_end:
  assumes "settled hub0 ac0" "follows hub0 ac0 cw0" "hub_served hub"
    and "following hub ac0 cw0 names {} ac cw" "names = hub_names hub"
    and "\<forall>n. n |\<notin>| names \<longrightarrow> fmlookup (reviewRecordStore ac) n = None"
  shows "settled hub (ac\<lparr>allKnownNames := names, lastState := st\<rparr>)
    \<and> follows hub (ac\<lparr>allKnownNames := names, lastState := st\<rparr>) cw"
proof -
  let ?ac = "ac\<lparr>allKnownNames := names, lastState := st\<rparr>"
  have ok: "cluster_cache_ok ?ac"
    using assms(4) by (simp add: following_def cluster_cache_ok_def)
  note F = assms(4)
  have versions: "cluster_version hub n = Some (rq_resourceVersion (rr_request r)) \<and> n |\<in>| names"
    if r: "fmlookup (reviewRecordStore ac) n = Some r" for n r
  proof -
    have names: "n |\<in>| names" using r assms(6) by (cases "n |\<in>| names") auto
    from following_done [OF F this] r names show ?thesis by auto
  qed
  have known: "fmlookup (knownResources cw) n = listed_version hub ?ac (w_user cw) n" if "in_sight cw n" for n
  proof (cases "cluster_version hub n")
    case None
    with following_pending [OF F _ None] following_frame(4) [OF F] that show ?thesis
      by (simp add: listed_version_def)
  next
    case (Some v)
    have sight: "in_sight cw0 n" using that following_frame(4) [OF F] by simp
    have "n |\<in>| names" using Some assms(3,5) by (simp add: hub_names_version)
    then obtain r where r: "fmlookup (reviewRecordStore ac) n = Some r" "v = rq_resourceVersion (rr_request r)"
      using following_done [OF F] Some by (metis option.inject)
    have "listed_version hub ?ac (w_user cw) n = (if record_lists (Some r) (w_user cw0) then Some v else None)"
      using listNames_record [OF ok] by (simp add: listed_version_def Some r(1) following_frame(2) [OF F])
    moreover from following_known [OF F sight Some]
    have "fmlookup (knownResources cw) n = (if record_lists (Some r) (w_user cw0) then Some v else None)"
    proof cases
      case 1
      then have r0: "fmlookup (reviewRecordStore ac0) n = Some r" using r(1) by simp
      then have "cluster_version hub0 n = Some v"
        using assms(1) by (simp add: settled_def r(2))
      with 1 r0 assms(1,2) sight show ?thesis
        using listNames_record [of ac0 n "w_user cw0"] by (simp add: follows_def settled_def listed_version_def)
    next
      case 2
      then show ?thesis by (simp add: r(1))
    qed
    ultimately show ?thesis by simp
  qed
  from ok versions known show ?thesis by (simp add: settled_def follows_def)
qed

section \<open>The ticks keep the assertions\<close>

lemma following_skip:
  assumes "following hub ac0 cw0 done pending ac cw" "skipped ac rq"
    and "rq_resourceVersion rq \<noteq> []" "cluster_version hub (rq_name rq) = Some (rq_resourceVersion rq)"
  shows "following hub ac0 cw0 (finsert (rq_name rq) done) pending ac cw"
proof -
  obtain r where "fmlookup (reviewRecordStore ac) (rq_name rq) = Some r"
    "rq_resourceVersion (rr_request r) = rq_resourceVersion rq"
    using assms(2,3) by (cases "fmlookup (reviewRecordStore ac) (rq_name rq)") (auto simp: skipped_def skipReview_iff)
  with assms(1,4) show ?thesis by (simp add: following_def)
qed

lemma request_step_record:
  assumes "\<not> skipped ac rq"
  obtains rv where "fmlookup (reviewRecordStore (request_step (cluster_env hub mo) rq ac)) (rq_name rq)
    = Some (cached_record rq (fmlookup (reviewRecordStore ac) (rq_name rq)) rv)"
proof -
  obtain rv where "reviewed (cluster_env hub mo) ac (rq_name rq) = Inr rv"
    using cluster_env_answers [of hub mo] unfolding always_answers_def reviewed_def by blast
  with assms that show ?thesis by (simp add: request_step_def apply_review_def Let_def)
qed

text \<open>The records after a review: the reviewed one is at its version, the others are untouched.\<close>

lemma review_done:
  assumes F: "following hub ac0 cw0 done pending ac cw" and "\<not> skipped ac rq"
    and version: "rq_resourceVersion rq = [] \<or> cluster_version hub (rq_name rq) = Some (rq_resourceVersion rq)"
    and n: "n |\<in>| (if rq_resourceVersion rq = [] then done else finsert (rq_name rq) done)"
  shows "\<exists>r. fmlookup (reviewRecordStore (request_step (cluster_env hub mo) rq ac)) n = Some r
    \<and> cluster_version hub n = Some (rq_resourceVersion (rr_request r))"
proof (cases "n = rq_name rq")
  case True
  obtain rv where new: "fmlookup (reviewRecordStore (request_step (cluster_env hub mo) rq ac)) (rq_name rq)
      = Some (cached_record rq (fmlookup (reviewRecordStore ac) (rq_name rq)) rv)"
    using request_step_record [OF assms(2)] by metis
  show ?thesis
  proof (cases "rq_resourceVersion rq = []")
    case v: True
    with n True obtain r where "fmlookup (reviewRecordStore ac) (rq_name rq) = Some r"
      "cluster_version hub (rq_name rq) = Some (rq_resourceVersion (rr_request r))"
      using following_done [OF F, of "rq_name rq"] by auto
    with v True new show ?thesis by (simp add: cached_record_def)
  next
    case False
    with True new version show ?thesis by (simp add: cached_record_def)
  qed
next
  case False
  with n have "n |\<in>| done" by (simp split: if_splits)
  with following_done [OF F this] request_step_lookup_other [of n rq] False show ?thesis by metis
qed

lemma following_review:
  assumes F: "following hub ac0 cw0 done pending ac cw" and "\<not> skipped ac rq"
    and version: "rq_resourceVersion rq = [] \<or> cluster_version hub (rq_name rq) = Some (rq_resourceVersion rq)"
    and ac': "ac' = request_step (cluster_env hub mo) rq ac"
    and learns: "watch_learns (rq_name rq)
      (renewed_version hub (fmlookup (reviewRecordStore ac') (rq_name rq)) cw (rq_name rq)) cw cw'"
  shows "following hub ac0 cw0 (if rq_resourceVersion rq = [] then done else finsert (rq_name rq) done) pending ac' cw'"
proof -
  let ?m = "rq_name rq"
  have others: "fmlookup (reviewRecordStore ac') n = fmlookup (reviewRecordStore ac) n"
    "fmlookup (knownResources cw') n = fmlookup (knownResources cw) n" if "n \<noteq> ?m" for n
    using that learns request_step_lookup_other [of n rq] by (simp_all add: ac' watch_learns_def)
  have user: "w_user cw' = w_user cw0" "visibleResources cw' = visibleResources cw0"
    using learns following_frame [OF F] by (simp_all add: watch_learns_def)
  have at: "fmlookup (knownResources cw') ?m = renewed_version hub (fmlookup (reviewRecordStore ac') ?m) cw ?m"
    using learns by (simp add: watch_learns_def)
  have "cluster_cache_ok ac'"
    using following_frame(1) [OF F] by (simp add: ac' cluster_cache_ok_def request_step_inv)
  moreover have "\<exists>r. fmlookup (reviewRecordStore ac') n = Some r
      \<and> cluster_version hub n = Some (rq_resourceVersion (rr_request r))"
    if "n |\<in>| (if rq_resourceVersion rq = [] then done else finsert ?m done)" for n
    using review_done [OF F assms(2) version that] by (simp add: ac')
  moreover have "fmlookup (reviewRecordStore ac') n = fmlookup (reviewRecordStore ac0) n
        \<and> fmlookup (knownResources cw') n = fmlookup (knownResources cw0) n
      \<or> fmlookup (knownResources cw') n
        = (if record_lists (fmlookup (reviewRecordStore ac') n) (w_user cw0) then Some v else None)"
    if sight: "in_sight cw0 n" and v: "cluster_version hub n = Some v" for n v
  proof (cases "n = ?m")
    case True
    then have "fmlookup (knownResources cw') n
        = (if record_lists (fmlookup (reviewRecordStore ac') n) (w_user cw0) then Some v else None)"
      using at sight v following_frame(2,4) [OF F] by (simp add: renewed_version_def)
    then show ?thesis ..
  next
    case False
    from following_known [OF F sight v] others [OF False] show ?thesis by metis
  qed
  moreover have "n \<in> pending"
    if "in_sight cw0 n" "cluster_version hub n = None" "fmlookup (knownResources cw') n \<noteq> None" for n
  proof (rule ccontr)
    assume "n \<notin> pending"
    then have "fmlookup (knownResources cw) n = None"
      by (rule following_pending [OF F that(1,2)])
    with that at others(2) [of n] show False
      by (cases "n = ?m") (auto simp: renewed_version_def split: if_splits)
  qed
  ultimately show ?thesis
    unfolding following_def using user by blast
qed

lemma following_request:
  assumes F: "following hub ac0 cw0 done pending ac cw"
    and call: "syncRequest (cluster_env hub mo)
      (GroupMembershipChanged (ClusterCache_watchable ord a (hub_clusters hub))) rq (ac, heap) = Done e s'"
    and "hub_ok hub" "fmlookup heap w = Some cw" "w \<in> set (watchers ac)"
    and "rq_resourceVersion rq = [] \<or> cluster_version hub (rq_name rq) = Some (rq_resourceVersion rq)"
  shows "\<exists>cw'. fmlookup (snd s') w = Some cw' \<and> w \<in> set (watchers (fst s')) \<and> allKnownNames (fst s') = allKnownNames ac
    \<and> following hub ac0 cw0 (if rq_resourceVersion rq = [] then done else finsert (rq_name rq) done) pending (fst s') cw'"
proof -
  from cluster_request_learns [OF call assms(3) following_frame(1) [OF F] assms(4,5)] obtain cw' where
    ac': "fst s' = request_step (cluster_env hub mo) rq ac" and cw': "fmlookup (snd s') w = Some cw'"
      "if skipped ac rq then cw' = cw else watch_learns (rq_name rq)
         (renewed_version hub (fmlookup (reviewRecordStore (fst s')) (rq_name rq)) cw (rq_name rq)) cw cw'"
    by blast
  show ?thesis
  proof (cases "skipped ac rq")
    case True
    then have "fst s' = ac" "cw' = cw" using ac' cw'(2) by (simp_all add: request_step_def)
    with following_skip [OF F True] F assms(5,6) cw'(1) show ?thesis by auto
  next
    case False
    with following_review [OF F False assms(6) ac'] cw' assms(5) show ?thesis by (simp add: ac')
  qed
qed

text \<open>The purge and the notifications about the names that are gone.\<close>

lemma following_purge:
  assumes F: "following hub ac0 cw0 names (fset (allKnownNames ac)) ac cw"
    and "hub_served hub" "names = hub_names hub" "range_order (mo_records mo)"
  shows "following hub ac0 cw0 names (fset (allKnownNames ac |-| names)) (purge (cluster_env hub mo) ac) cw
    \<and> (\<forall>n. n |\<notin>| names \<longrightarrow> fmlookup (reviewRecordStore (purge (cluster_env hub mo) ac)) n = None)"
proof -
  let ?ac = "purge (cluster_env hub mo) ac"
  have ok: "cluster_cache_ok ac" using following_frame(1) [OF F] .
  then have inv: "cache_inv ac" by (simp add: cluster_cache_ok_def)
  have ord: "range_order (record_order (cluster_env hub mo))" using assms(4) by simp
  have records: "fmlookup (reviewRecordStore ?ac) n = (if n |\<in>| names then fmlookup (reviewRecordStore ac) n else None)" for n
    using purge_facts(2) [OF ord inv, of n] by (simp add: assms(3))
  have ok': "cluster_cache_ok ?ac"
    using ok purge_facts(1) [OF ord inv] by (simp add: cluster_cache_ok_def purge_def)
  have names: "n |\<in>| names \<longleftrightarrow> cluster_version hub n \<noteq> None" for n
    using assms(2,3) by (simp add: hub_names_version)
  show ?thesis
    using F ok' unfolding following_def records by (auto simp: names)
qed

lemma following_gone:
  assumes F: "following hub ac0 cw0 names (set (n # ns)) ac cw" "cluster_version hub n = None"
    and learns: "watch_learns n (target_version wc cw n {||} {||}) cw cw'"
  shows "following hub ac0 cw0 names (set ns) ac cw'"
proof -
  have new: "fmlookup (knownResources cw') m = (if m = n \<and> in_sight cw0 n then None else fmlookup (knownResources cw) m)" for m
    using learns following_frame(4) [OF F(1), of n] by (auto simp: watch_learns_def gone_target)
  have "w_user cw' = w_user cw" "visibleResources cw' = visibleResources cw"
    using learns by (simp_all add: watch_learns_def)
  with F show ?thesis
    unfolding following_def new by auto
qed

section \<open>From tick to tick\<close>

definition pass_ok_at :: "hub \<Rightarrow> watcher_id \<Rightarrow> user_info \<Rightarrow> string fset \<Rightarrow> pass_pc \<times> watch_heap sys \<Rightarrow> bool" where
  "pass_ok_at hub w u vis x \<longleftrightarrow>
     (fst x \<noteq> Stuck \<longrightarrow>
       (\<exists>hub0 ac0 cw0 cw. settled hub0 ac0 \<and> follows hub0 ac0 cw0 \<and> w_user cw0 = u \<and> visibleResources cw0 = vis
          \<and> fmlookup (snd (snd x)) w = Some cw \<and> w \<in> set (watchers (fst (snd x)))
          \<and> pass_assertion hub ac0 cw0 (fst x) (fst (snd x)) cw))"

lemma pass_ok_atI:
  "settled hub0 ac0 \<Longrightarrow> follows hub0 ac0 cw0 \<Longrightarrow> w_user cw0 = u \<Longrightarrow> visibleResources cw0 = vis
     \<Longrightarrow> fmlookup (snd s) w = Some cw \<Longrightarrow> w \<in> set (watchers (fst s))
     \<Longrightarrow> pass_assertion hub ac0 cw0 pc (fst s) cw \<Longrightarrow> pass_ok_at hub w u vis (pc, s)"
  unfolding pass_ok_at_def by auto

lemma pass_ok_at_after:
  assumes "\<And>a s. r = Done a s \<Longrightarrow> pass_ok_at hub w u vis (k a, s)"
  shows "pass_ok_at hub w u vis (after_call r k)"
  using assms by (cases r) (auto simp: pass_ok_at_def)

lemma pass_ok_at_start:
  assumes "hub_served hub" "settled hub0 ac" "follows hub0 ac cw" "fmlookup heap w = Some cw" "w \<in> set (watchers ac)"
  shows "pass_ok_at hub w (w_user cw) (visibleResources cw) (pass_tick (cluster_env hub mo) gmc Idle (ac, heap))"
proof -
  obtain rqs where rqs: "ClusterCache_ListResources (hub_clusters hub) = Inr rqs"
    using assms(1) by (auto simp: hub_served_def ClusterCache_ListResources_def)
  have "fset_of_list (map rq_name rqs) = hub_names hub"
    using known_names_cluster [of hub undefined] by (simp add: known_names_def resource_requests_def rqs del: known_names_cluster)
  with resource_request_version [OF assms(1) rqs] following_start [OF assms(2,3), of hub] assms
  show ?thesis
    by (auto simp: rqs split: prod.split intro!: pass_ok_atI [OF assms(2,3) refl refl])
qed

text \<open>The calls of the ticks: a request of the pass, and the notification of a name that is gone.\<close>

lemma request_tick_ok:
  assumes "syncRequest (cluster_env hub mo) (GroupMembershipChanged (ClusterCache_watchable ord a (hub_clusters hub))) rq s = Done e s'"
    and "settled hub0 ac0" "follows hub0 ac0 cw0"
    and F: "following hub ac0 cw0 done pending (fst s) cw"
    and "hub_ok hub" "fmlookup (snd s) w = Some cw" "w \<in> set (watchers (fst s))"
    and "rq_resourceVersion rq = [] \<or> cluster_version hub (rq_name rq) = Some (rq_resourceVersion rq)"
    and "\<And>ac' cw'. allKnownNames ac' = allKnownNames (fst s)
      \<Longrightarrow> following hub ac0 cw0 (if rq_resourceVersion rq = [] then done else finsert (rq_name rq) done) pending ac' cw'
      \<Longrightarrow> pass_assertion hub ac0 cw0 pc ac' cw'"
  shows "pass_ok_at hub w (w_user cw0) (visibleResources cw0) (pc, s')"
proof -
  from following_request [OF F, of mo ord a rq "snd s" e s' w] assms(1,5-8) obtain cw' where
    "fmlookup (snd s') w = Some cw'" "w \<in> set (watchers (fst s'))" "allKnownNames (fst s') = allKnownNames (fst s)"
    "following hub ac0 cw0 (if rq_resourceVersion rq = [] then done else finsert (rq_name rq) done) pending (fst s') cw'"
    by auto
  with assms(9) show ?thesis
    by (intro pass_ok_atI [OF assms(2,3) refl refl]) auto
qed

lemma gone_tick_ok:
  assumes "notifyWatchers (GroupMembershipChanged (ClusterCache_watchable ord a (hub_clusters hub))) n {||} {||} s = Done e s'"
    and "settled hub0 ac0" "follows hub0 ac0 cw0" "hub_served hub"
    and A: "pass_assertion hub ac0 cw0 (AtGone (n # ns) names st) (fst s) cw"
    and "fmlookup (snd s) w = Some cw" "w \<in> set (watchers (fst s))"
  shows "pass_ok_at hub w (w_user cw0) (visibleResources cw0) (AtGone ns names st, s')"
proof -
  let ?wc = "ClusterCache_watchable ord a (hub_clusters hub)"
  have wc: "watchable_cache ?wc"
    using hub_served_ok [OF assms(4)] by (intro cluster_watchable_contract) (auto simp: hub_ok_def)
  have gone: "cluster_version hub n = None"
    using A hub_names_version [OF assms(4), of n] by auto
  from watchable_cache.notify_learns [OF wc, of n "{||}" "{||}" "fst s" "snd s" e s' w cw] assms(1,6,7)
  obtain cw' where s': "fst s' = fst s" "fmlookup (snd s') w = Some cw'"
    "watch_learns n (target_version ?wc cw n {||} {||}) cw cw'"
    by auto
  from A following_gone [OF _ gone s'(3)] s'(1,2) assms(7) show ?thesis
    by (intro pass_ok_atI [OF assms(2,3) refl refl s'(2)]) auto
qed


lemma purge_tick_ok:
  assumes "settled hub0 ac0" "follows hub0 ac0 cw0" "hub_served hub" "fair_orders mo"
    and A: "pass_assertion hub ac0 cw0 (AtPurge names st) (fst s) cw"
    and at: "fmlookup (snd s) w = Some cw" "w \<in> set (watchers (fst s))"
  shows "pass_ok_at hub w (w_user cw0) (visibleResources cw0) (pass_tick (cluster_env hub mo) gmc (AtPurge names st) s)"
proof -
  let ?env = "cluster_env hub mo"
  have names: "names = hub_names hub" and F: "following hub ac0 cw0 names (fset (allKnownNames (fst s))) (fst s) cw"
    using A by auto
  have orders: "range_order (mo_records mo)" "range_order (mo_names mo)"
    using assms(4) by (simp_all add: fair_orders_def)
  let ?gone = "mo_names mo (sorted_list_of_fset (allKnownNames (fst s) |-| names))"
  have gone: "set ?gone = fset (allKnownNames (fst s) |-| names)"
    using orders(2) by (simp add: range_order_def)
  have tick: "pass_tick ?env gmc (AtPurge names st) s = (AtGone ?gone names st, (purge ?env (fst s), snd s))"
    by (simp add: purge_def names case_prod_unfold Let_def)
  from following_purge [OF F assms(3) names orders(1)] gone names show ?thesis
    unfolding tick using at
    by (intro pass_ok_atI [OF assms(1,2) refl refl, where cw = cw]) (auto simp: purge_def)
qed

lemma last_tick_ok:
  assumes start: "settled hub0 ac0" "follows hub0 ac0 cw0" and "hub_served hub"
    and A: "pass_assertion hub ac0 cw0 (AtGone [] names st) (fst s) cw"
    and at: "fmlookup (snd s) w = Some cw" "w \<in> set (watchers (fst s))"
  shows "pass_ok_at hub w (w_user cw0) (visibleResources cw0) (pass_tick env gmc (AtGone [] names st) s)"
proof -
  have "settled hub ((fst s)\<lparr>allKnownNames := names, lastState := st\<rparr>)
      \<and> follows hub ((fst s)\<lparr>allKnownNames := names, lastState := st\<rparr>) cw"
    using A by (intro following_end [OF start assms(3)]) auto
  moreover have "w_user cw = w_user cw0" "visibleResources cw = visibleResources cw0"
    using A following_frame(2,3) by auto
  ultimately show ?thesis
    using at by (auto simp: case_prod_unfold intro!: pass_ok_atI [OF start refl refl])
qed

lemma pass_tick_ok:
  assumes "hub_served hub" "fair_orders mo" and ok: "pass_ok_at hub w u vis (pc, s)"
  shows "pass_ok_at hub w u vis
    (pass_tick (cluster_env hub mo) (GroupMembershipChanged (ClusterCache_watchable ord a (hub_clusters hub))) pc s)"
proof (cases "pc = Stuck")
  case True
  then show ?thesis by (simp add: pass_ok_at_def)
next
  case False
  let ?gmc = "GroupMembershipChanged (ClusterCache_watchable ord a (hub_clusters hub))"
  let ?env = "cluster_env hub mo"
  obtain hub0 ac0 cw0 cw where start: "settled hub0 ac0" "follows hub0 ac0 cw0"
    and u: "u = w_user cw0" "vis = visibleResources cw0"
    and at: "fmlookup (snd s) w = Some cw" "w \<in> set (watchers (fst s))"
    and A: "pass_assertion hub ac0 cw0 pc (fst s) cw"
    using ok False unfolding pass_ok_at_def by auto
  note keep = pass_ok_atI [OF start refl refl at, folded u]
  note call = request_tick_ok [OF _ start, folded u]
  have hub: "hub_ok hub" using assms(1) by simp
  show ?thesis
  proof (cases pc)
    case Idle
    with A u have "settled hub (fst s)" "follows hub (fst s) cw" "u = w_user cw" "vis = visibleResources cw"
      by simp_all
    with pass_ok_at_start [OF assms(1) _ _ at(1), of hub "fst s"] at(2) Idle show ?thesis by simp
  next
    case (AtRequests rqs names st)
    show ?thesis
    proof (cases rqs)
      case Nil
      with AtRequests A show ?thesis by (auto intro: keep)
    next
      case (Cons rq rest)
      show ?thesis
        unfolding AtRequests Cons pass_tick.simps
        by (rule pass_ok_at_after, rule call [OF _ _ hub at]) (use A AtRequests Cons in auto)
    qed
  next
    case (AtBindings names st)
    with A show ?thesis by (auto intro: keep split: sum.split)
  next
    case (AtRoles bs names st)
    show ?thesis
    proof (cases bs)
      case Nil
      with AtRoles A show ?thesis by (auto intro: keep)
    next
      case (Cons b rest)
      from A show ?thesis
        unfolding AtRoles Cons roles_tick by (auto intro: keep split: sum.split)
    qed
  next
    case (AtNames b cr ns bs names st)
    show ?thesis
    proof (cases ns)
      case Nil
      with AtNames A show ?thesis by (auto intro: keep)
    next
      case (Cons n rest)
      show ?thesis
        unfolding AtNames Cons pass_tick.simps
        by (rule pass_ok_at_after, rule call [OF _ _ hub at]) (use A AtNames in \<open>auto simp: binding_request_def\<close>)
    qed
  next
    case (AtPurge names st)
    show ?thesis
      unfolding AtPurge u by (rule purge_tick_ok [OF start assms(1,2) A [unfolded AtPurge] at])
  next
    case (AtGone ns names st)
    show ?thesis
    proof (cases ns)
      case Nil
      show ?thesis
        unfolding AtGone Nil u by (rule last_tick_ok [OF start assms(1) A [unfolded AtGone Nil] at])
    next
      case (Cons n rest)
      show ?thesis
        unfolding AtGone Cons pass_tick.simps u
        by (rule pass_ok_at_after, rule gone_tick_ok [OF _ start assms(1) _ at, of ord a])
          (use A AtGone Cons in auto)
    qed
  qed (use False in simp)
qed


lemma ticks_ok:
  assumes "ticks (cluster_env hub mo) (GroupMembershipChanged (ClusterCache_watchable ord a (hub_clusters hub))) x y"
    and "hub_served hub" "fair_orders mo" "pass_ok_at hub w u vis x"
  shows "pass_ok_at hub w u vis y"
  using assms(1)
proof (induction rule: rtranclp_induct)
  case (step y z)
  with pass_tick_ok [OF assms(2,3), of w u vis "fst y" "snd y" ord a] show ?case
    by (simp add: tick_rel_def)
qed (rule assms(4))

text \<open>
  The pass as a whole: from a settled cache and a watch in step with it, to a settled cache
  and the watch in step with that, whatever happened to the hub in between.
\<close>

lemma pass_follows:
  assumes "hub_served hub'" "fair_orders mo" "settled hub ac" "follows hub ac cw"
    and "fmlookup heap w = Some cw" "w \<in> set (watchers ac)"
    and "ClusterCache_synchronize hub' mo (ac, heap) = Done () (ac', heap')"
  shows "settled hub' ac' \<and> w \<in> set (watchers ac') \<and> (\<exists>cw'. fmlookup heap' w = Some cw' \<and> follows hub' ac' cw'
    \<and> w_user cw' = w_user cw \<and> visibleResources cw' = visibleResources cw)"
proof -
  let ?gmc = "GroupMembershipChanged (ClusterCache_watchable (mo_names mo) ac (hub_clusters hub'))"
  obtain x where x: "x = pass_tick (cluster_env hub' mo) ?gmc Idle (ac, heap)"
    "ticks (cluster_env hub' mo) ?gmc x (Idle, (ac', heap'))"
    using pass_ticks [of "cluster_env hub' mo" ?gmc "(ac, heap)"] assms(7)
    unfolding ClusterCache_synchronize_def by (auto simp: tick_rel_def)
  have "pass_ok_at hub' w (w_user cw) (visibleResources cw) x"
    unfolding x(1) by (rule pass_ok_at_start [OF assms(1,3,4,5,6)])
  from ticks_ok [OF x(2) assms(1,2) this] show ?thesis
    by (auto simp: pass_ok_at_def)
qed

end
