(* ===== verification/Watch_Life.thy ===== *)
theory Watch_Life
  imports Pass_Assertions "HOL-Library.Sublist"
begin

text \<open>
  The whole life of a watch: the ticks of the synchronisation are steps of the relation
  \<open>watch_step\<close>, a request registers a watch in step with the listing, and the two invariants,
  of the stream of events and of the assertions of a pass, hold together over every
  interleaving of ticks, changes of the hub, the goroutine of the watch and its client.
\<close>

section \<open>A tick, seen from a watch\<close>

lemma after_call_state [simp]: "snd (after_call r k) = run_state r"
  by (cases r) simp_all

lemma notify_watch_step:
  "watchable_cache wc \<Longrightarrow> watch_step w (s, g) (run_state (notifyWatchers (GroupMembershipChanged wc) n us gs s), g)"
  by (cases "notifyWatchers (GroupMembershipChanged wc) n us gs s") (auto intro: notify notify_stuck)

lemma caches_watch_step:
  "watchers ac' = watchers ac \<Longrightarrow> watcherLocked ac' = watcherLocked ac \<Longrightarrow>
     watch_step w ((ac, heap), g) ((ac', heap), g)"
  by (intro other) simp_all

lemma request_watch_steps:
  assumes "watchable_cache wc"
  shows "(watch_step w)\<^sup>*\<^sup>* (s, g) (run_state (syncRequest env (GroupMembershipChanged wc) rq s), g)"
proof -
  obtain ac heap where s: "s = (ac, heap)" by (cases s)
  have "watch_step w ((ac, heap), g) ((request_step env rq ac, heap), g)"
    by (rule caches_watch_step) simp_all
  moreover have "run_state (bind_run r (\<lambda>_ s'. Done None s')) = run_state r"
    for r :: "(unit, watch_heap sys) run"
    by (cases r) simp_all
  ultimately show ?thesis
    using notify_watch_step [OF assms, of w "(request_step env rq ac, heap)" g]
    by (auto simp: s syncRequest_eq split: sum.split intro: rtranclp.rtrancl_into_rtrancl r_into_rtranclp)
qed

lemma tick_watch_steps:
  assumes "watchable_cache wc"
  shows "(watch_step w)\<^sup>*\<^sup>* (s, g) (snd (pass_tick env (GroupMembershipChanged wc) pc s), g)"
proof (cases "(env, GroupMembershipChanged wc, pc, s)" rule: pass_tick.cases)
  case (3 env' gmc' rq rest names st s')
  with request_watch_steps [OF assms] show ?thesis by simp
next
  case (8 env' gmc' b cr n others rest names st s')
  with request_watch_steps [OF assms] show ?thesis by simp
next
  case (9 env' gmc' names st s')
  then show ?thesis
    by (cases s) (auto intro!: r_into_rtranclp caches_watch_step)
next
  case (10 env' gmc' names st s')
  then show ?thesis
    by (cases s) (auto intro!: r_into_rtranclp caches_watch_step)
next
  case (11 env' gmc' n others names st s')
  with notify_watch_step [OF assms] show ?thesis by (simp add: r_into_rtranclp)
qed (auto simp: Let_def split: sum.split prod.split)

text \<open>A tick that returns has released the mutex, and found it free if it took it.\<close>

lemma notify_unlocks: "notifyWatchers gmc n us gs s = Done u s' \<Longrightarrow> \<not> watcherLocked (fst s')"
  by (auto simp: notifyWatchers_def with_lock_def bind_run_Done_iff split: if_splits prod.splits)

lemma request_unlocks:
  "syncRequest env gmc rq s = Done e s' \<Longrightarrow> \<not> watcherLocked (fst s) \<Longrightarrow> \<not> watcherLocked (fst s')"
  by (cases s) (auto simp: syncRequest_eq bind_run_Done_iff dest: notify_unlocks split: if_splits sum.splits)

lemma request_call_unlocked:
  "\<not> watcherLocked (fst s) \<Longrightarrow> fst (after_call (syncRequest env gmc rq s) k) \<noteq> Stuck
     \<Longrightarrow> \<not> watcherLocked (fst (run_state (syncRequest env gmc rq s)))"
  by (cases "syncRequest env gmc rq s") (auto dest: request_unlocks)

lemma notify_call_unlocked:
  "fst (after_call (notifyWatchers gmc n us gs s) k) \<noteq> Stuck
     \<Longrightarrow> \<not> watcherLocked (fst (run_state (notifyWatchers gmc n us gs s)))"
  by (cases "notifyWatchers gmc n us gs s") (auto dest: notify_unlocks)

lemma tick_unlocked:
  assumes "\<not> watcherLocked (fst s)" "fst (pass_tick env gmc pc s) \<noteq> Stuck"
  shows "\<not> watcherLocked (fst (snd (pass_tick env gmc pc s)))"
proof (cases "(env, gmc, pc, s)" rule: pass_tick.cases)
  case (3 env' gmc' rq rest names st s')
  with assms show ?thesis by (simp add: request_call_unlocked)
next
  case (8 env' gmc' b cr n others rest names st s')
  with assms show ?thesis by (simp add: request_call_unlocked)
next
  case (11 env' gmc' n others names st s')
  with assms show ?thesis by (simp add: notify_call_unlocked)
qed (use assms in \<open>auto simp: Let_def split: sum.split prod.split\<close>)


section \<open>A watch starts in step with the listing\<close>

lemma known_loop_other:
  "n \<notin> GetName ` set objs \<Longrightarrow> fmlookup (known_loop objs known) n = fmlookup known n"
  by (induction objs arbitrary: known) auto

lemma known_loop_found:
  "n \<in> GetName ` set objs \<Longrightarrow> \<forall>obj \<in> set objs. GetName obj = n \<longrightarrow> GetResourceVersion obj = v
     \<Longrightarrow> fmlookup (known_loop objs known) n = Some v"
proof (induction objs arbitrary: known)
  case (Cons x objs)
  show ?case
  proof (cases "n \<in> GetName ` set objs")
    case True
    with Cons show ?thesis by simp
  next
    case False
    with Cons.prems show ?thesis by (auto simp: known_loop_other)
  qed
qed simp

lemma NewCacheWatcher_known:
  assumes "wc_ListObjects wc user = Inr l" "ExtractList l = Inr objs"
  shows "knownResources (NewCacheWatcher user visible wc all) = known_loop objs fmempty"
  using assms by (simp add: NewCacheWatcher_def)

lemma known_loop_dom:
  "fmlookup (known_loop objs known) n \<noteq> None \<longleftrightarrow> n \<in> GetName ` set objs \<or> fmlookup known n \<noteq> None"
  by (induction objs arbitrary: known) auto

lemma NewCacheWatcher_initial:
  "GetName ` set (initialResources (NewCacheWatcher user visible wc all)) =
     (if all then {n. fmlookup (knownResources (NewCacheWatcher user visible wc all)) n \<noteq> None} else {})"
proof -
  define objs where "objs = (case wc_ListObjects wc user of Inl x \<Rightarrow> []
      | Inr l \<Rightarrow> (case ExtractList l of Inl x \<Rightarrow> [] | Inr objs \<Rightarrow> objs))"
  have objs: "knownResources (NewCacheWatcher user visible wc all) = known_loop objs fmempty"
    "initialResources (NewCacheWatcher user visible wc all) = (if all then objs else [])"
    by (simp_all add: NewCacheWatcher_def Let_def objs_def)
  have "{n. fmlookup (known_loop objs fmempty) n \<noteq> None} = GetName ` set objs"
    using known_loop_dom [of objs fmempty] by (simp del: not_None_eq)
  with objs show ?thesis by (cases all) (simp_all del: not_None_eq)
qed

text \<open>The objects a new watch lists are the clusters its user may list, as the informer has them.\<close>

lemma cluster_watch_knows:
  assumes "hub_served hub" "range_order ord"
  shows "fmlookup (knownResources
      (NewCacheWatcher user visible (ClusterCache_watchable ord ac (hub_clusters hub)) all)) n
    = listed_version hub ac user n"
proof -
  let ?keys = "ord (sorted_list_of_fset (listNames ac user))"
  let ?wc = "ClusterCache_watchable ord ac (hub_clusters hub)"
  have keys: "set ?keys = fset (listNames ac user)"
    using assms(2) by (simp add: range_order_def)
  have errors: "lister_Get (hub_clusters hub) k = Inl e \<Longrightarrow> IsNotFound e" for k e
    using assms(1) by (simp add: hub_served_def)
  then obtain cs where cs: "cluster_list_loop (hub_clusters hub) Everything ?keys [] = Inr cs"
    using clusters.loop_ok_iff [of "hub_clusters hub" Everything ?keys "[]"] by blast
  have members: "set cs = {c. \<exists>k \<in> fset (listNames ac user). lister_Get (hub_clusters hub) k = Inr c}"
    using clusters.loop_set [OF cs] keys by (auto simp: Everything_def)
  have name: "lister_Get (hub_clusters hub) k = Inr c \<Longrightarrow> meta_Name (mc_Meta c) = k" for k c
    using hub_served_ok [OF assms(1)] by (simp add: hub_ok_def ClusterName_def)
  have known: "knownResources (NewCacheWatcher user visible ?wc all) = known_loop (map ManagedCluster cs) fmempty"
    by (rule NewCacheWatcher_known [where l = "ManagedClusterList cs"])
      (simp_all add: ClusterCache_watchable_def ClusterCache_ListObjects_def ClusterCache_List_def cs)
  show ?thesis
  proof (cases "listed_version hub ac user n")
    case None
    then have "n \<notin> GetName ` set (map ManagedCluster cs)"
      using name by (fastforce simp: members GetName_def listed_version_def cluster_version_def
          split: if_splits sum.splits)
    then show ?thesis unfolding known None by (simp add: known_loop_other)
  next
    case (Some v)
    then obtain c where c: "n |\<in>| listNames ac user" "lister_Get (hub_clusters hub) n = Inr c"
      "v = meta_ResourceVersion (mc_Meta c)"
      by (auto simp: listed_version_def cluster_version_def split: if_splits sum.splits)
    have "GetResourceVersion obj = v" if "obj \<in> set (map ManagedCluster cs)" "GetName obj = n" for obj
      using that c name by (auto simp: members GetName_def GetResourceVersion_def)
    moreover have "n \<in> GetName ` set (map ManagedCluster cs)"
      using c name by (force simp: members GetName_def)
    ultimately show ?thesis unfolding known Some by (intro known_loop_found) auto
  qed
qed


lemma ClusterREST_Watch_starts:
  assumes "ClusterREST_Watch rest ord w ctx options s = Done (Inr r) s0" "range_order ord"
    and "hub_served hub" "cr_Lister rest = hub_clusters hub" "w \<notin> set (watchers (fst s))"
  obtains cw0 user where "registered w cw0 s0" "fresh_watch (watch_base cw0) cw0" "ctx = Some (Some user)"
    "w_user cw0 = user" "follows hub (fst s0) cw0" "same_caches (fst s) s0" "\<not> watcherLocked (fst s0)"
proof -
  have name: "\<And>n c. lister_Get (cr_Lister rest) n = Inr c \<Longrightarrow> ClusterName c = n"
    using hub_served_ok [OF assms(3)] by (simp add: hub_ok_def assms(4))
  obtain cw0 user where cw0: "registered w cw0 s0" "fresh_watch (watch_base cw0) cw0"
    "ctx = Some (Some user)" "w_user cw0 = user"
    by (rule ClusterREST_Watch_registered [OF assms(1,2) name assms(5)]) auto
  obtain user' vis where out: "ctx = Some (Some user')"
      "watch_outcome w user' vis (ClusterCache_watchable ord (fst s) (cr_Lister rest)) s s0"
    using ClusterREST_Watch_ok [OF assms(1)] by metis
  then obtain all where s0: "\<not> watcherLocked (fst s)" "s0 = ((fst s)\<lparr>watchers := watchers (fst s) @ [w]\<rparr>,
      fmupd w (NewCacheWatcher user' vis (ClusterCache_watchable ord (fst s) (cr_Lister rest)) all) (snd s))"
    by (auto simp: watch_outcome_def)
  then have cw0': "cw0 = NewCacheWatcher user' vis (ClusterCache_watchable ord (fst s) (hub_clusters hub)) all"
    using cw0(1) by (simp add: registered_def assms(4))
  have "listed_version hub (fst s0) u n = listed_version hub (fst s) u n" for u n
    by (simp add: s0(2) listed_version_def listNames_def)
  then have "follows hub (fst s0) cw0"
    by (simp add: follows_def cw0' cluster_watch_knows [OF assms(3,2)])
  with cw0 s0 show ?thesis
    by (intro that [OF cw0 _ watch_outcome_frame [OF out(2)]]) simp_all
qed

section \<open>The life of a watch\<close>

text \<open>
  The hub of the state is the one the current pass reads, or the last pass has read. A pass
  begins with a hub of its own; the steps in between are those of the watch, of its client
  and of others, which leave the caches, what the watch knows and what is put on its channel
  to the synchronisation.
\<close>

type_synonym life_state = "hub \<times> pass_pc \<times> watch_sys"

definition only_takes :: "watch \<Rightarrow> watch \<Rightarrow> bool" where
  "only_takes cw cw' \<longleftrightarrow>
     knownResources cw' = knownResources cw \<and> suffix (cacheIncoming cw') (cacheIncoming cw)"

definition leaves_cache :: "watcher_id \<Rightarrow> watch_heap sys \<Rightarrow> watch_heap sys \<Rightarrow> bool" where
  "leaves_cache w s s' \<longleftrightarrow>
     same_caches (fst s) s' \<and> watcherLocked (fst s') = watcherLocked (fst s)
     \<and> rel_option only_takes (fmlookup (snd s) w) (fmlookup (snd s') w)"

lemma only_takes_refl [simp]: "only_takes cw cw"
  by (simp add: only_takes_def)

lemma leaves_same_watch [simp]: "rel_option only_takes x x"
  by (simp add: option.rel_refl)

inductive life_step :: "watcher_id \<Rightarrow> life_state \<Rightarrow> life_state \<Rightarrow> bool" for w where
  life_begin: "hub_served hub' \<Longrightarrow> fair_orders mo \<Longrightarrow> ClusterCache_tick hub' mo Idle s = (pc', s') \<Longrightarrow>
    life_step w (hub, Idle, s, g) (hub', pc', s', g)"
| life_tick: "pc \<noteq> Idle \<Longrightarrow> fair_orders mo \<Longrightarrow> ClusterCache_tick hub mo pc s = (pc', s') \<Longrightarrow>
    life_step w (hub, pc, s, g) (hub, pc', s', g)"
| life_watch: "watch_step w (s, g) (s', g') \<Longrightarrow> leaves_cache w s s' \<Longrightarrow>
    life_step w (hub, pc, s, g) (hub, pc, s', g')"

text \<open>So are all the steps of the goroutine and the stop of its client.\<close>

lemma goroutine_leaves_cache:
  "watch_step w x y \<Longrightarrow> snd y \<noteq> snd x \<Longrightarrow> leaves_cache w (fst x) (fst y)"
proof (induction rule: watch_step.induct)
  case (remove g s s')
  then show ?case
    by (cases s) (auto simp: RemoveWatcher_eq leaves_cache_def split: if_splits)
qed (auto simp: leaves_cache_def only_takes_def suffix_def)

lemma stop_leaves_cache: "leaves_cache w (ac, heap) (ac, Stop w heap)"
  by (auto simp: leaves_cache_def only_takes_def Stop_def split: option.split)

definition life_inv :: "watcher_id \<Rightarrow> watch \<Rightarrow> life_state \<Rightarrow> bool" where
  "life_inv w cw0 x \<longleftrightarrow>
     (case x of (hub, pc, s, g) \<Rightarrow>
        hub_served hub \<and> watch_inv w (watch_base cw0) cw0 (s, g)
        \<and> (watcherLocked (fst s) \<longrightarrow> pc = Stuck)
        \<and> (g_pc g \<noteq> Closing \<and> g_pc g \<noteq> Returned \<longrightarrow>
             pass_ok_at hub w (w_user cw0) (visibleResources cw0) (pc, s)))"


text \<open>The assertions read the caches and three fields of the watch.\<close>

definition same_watch :: "watch \<Rightarrow> watch \<Rightarrow> bool" where
  "same_watch cw cw' \<longleftrightarrow>
     w_user cw' = w_user cw \<and> visibleResources cw' = visibleResources cw \<and> knownResources cw' = knownResources cw"

lemma caches_fields:
  assumes "caches ac' = caches ac"
  shows "cluster_cache_ok ac' = cluster_cache_ok ac" "reviewRecordStore ac' = reviewRecordStore ac"
    "allKnownNames ac' = allKnownNames ac" "listNames ac' u = listNames ac u"
proof -
  have "P (caches ac') = P (caches ac)" for P :: "auth_cache \<Rightarrow> 'c"
    by (simp add: assms)
  from this [of cluster_cache_ok] this [of reviewRecordStore] this [of allKnownNames] this [of "\<lambda>ac. listNames ac u"]
  show "cluster_cache_ok ac' = cluster_cache_ok ac" "reviewRecordStore ac' = reviewRecordStore ac"
    "allKnownNames ac' = allKnownNames ac" "listNames ac' u = listNames ac u"
    by (simp_all add: listNames_def)
qed

lemma pass_assertion_frame:
  assumes "caches ac' = caches ac" "same_watch cw cw'" "pass_assertion hub ac0 cw0 pc ac cw"
  shows "pass_assertion hub ac0 cw0 pc ac' cw'"
proof -
  note eqs = caches_fields [OF assms(1)] assms(2) [unfolded same_watch_def]
  have sight: "in_sight cw' = in_sight cw"
    using eqs by (auto simp: in_sight_def)
  have "following hub ac0 cw0 done pending ac' cw' = following hub ac0 cw0 done pending ac cw" for "done" pending
    using eqs by (simp add: following_def)
  moreover have "settled hub ac' = settled hub ac" "follows hub ac' cw' = follows hub ac cw"
    using eqs by (simp_all add: settled_def follows_def listed_version_def sight)
  ultimately show ?thesis
    using assms(3) eqs by (cases pc) simp_all
qed

lemma closing_stays:
  "watch_step w x y \<Longrightarrow> g_pc (snd x) \<in> {Closing, Returned} \<Longrightarrow> g_pc (snd y) \<in> {Closing, Returned}"
  by (induction rule: watch_step.induct) auto


lemma watch_inv_watch:
  assumes "watch_inv w base cw0 (s, g)"
  obtains cw where "fmlookup (snd s) w = Some cw" "w_user cw = w_user cw0" "visibleResources cw = visibleResources cw0"
    "g_pc g \<noteq> Closing \<Longrightarrow> g_pc g \<noteq> Returned \<Longrightarrow> w \<in> set (watchers (fst s))"
proof -
  obtain cw where cw: "fmlookup (snd s) w = Some cw" "local_inv w base cw0 (fst s) cw g"
    using assms by (auto simp: watch_inv_def)
  have "w \<in> set (watchers (fst s))" if "g_pc g \<noteq> Closing" "g_pc g \<noteq> Returned"
  proof -
    have "filter (\<lambda>v. v = w) (watchers (fst s)) = [w]"
      using cw(2) that by (simp add: local_inv_def registration_def)
    then have "w \<in> set (filter (\<lambda>v. v = w) (watchers (fst s)))" by simp
    then show ?thesis by simp
  qed
  with cw show ?thesis by (auto simp: local_inv_def intro: that)
qed

lemma pass_ok_at_watch:
  assumes "pass_ok_at hub w u vis (pc, s)" "leaves_cache w s s'"
    and "fmlookup (snd s') w = Some cw'" "w_user cw' = u" "visibleResources cw' = vis"
    and "fmlookup (snd s) w = Some cw" "w_user cw = u" "visibleResources cw = vis" "w \<in> set (watchers (fst s'))"
  shows "pass_ok_at hub w u vis (pc, s')"
proof (cases "pc = Stuck")
  case False
  have same: "caches (fst s') = caches (fst s)" "same_watch cw cw'"
    using assms(2-8) by (simp_all add: leaves_cache_def same_caches_def same_watch_def only_takes_def)
  obtain hub0 ac0 cw0 where start: "settled hub0 ac0" "follows hub0 ac0 cw0" "w_user cw0 = u"
    "visibleResources cw0 = vis" "pass_assertion hub ac0 cw0 pc (fst s) cw"
    using assms(1,6) False by (auto simp: pass_ok_at_def)
  from pass_assertion_frame [OF same start(5)] show ?thesis
    by (rule pass_ok_atI [OF start(1-4) assms(3,9)])
qed (simp add: pass_ok_at_def)

lemma cluster_tick_steps:
  assumes "hub_ok hub"
  shows "(watch_step w)\<^sup>*\<^sup>* (s, g) (snd (ClusterCache_tick hub mo pc s), g)"
  unfolding ClusterCache_tick_def
  by (rule tick_watch_steps, rule cluster_watchable_contract) (use assms in \<open>simp add: hub_ok_def\<close>)

lemma watch_inv_steps:
  "(watch_step w)\<^sup>*\<^sup>* x y \<Longrightarrow> watch_inv w base cw0 x \<Longrightarrow> watch_inv w base cw0 y"
  by (induction rule: rtranclp_induct) (auto intro: watch_inv_step)

lemma tick_keeps_lock:
  assumes "ClusterCache_tick hub mo pc s = (pc', s')" "watcherLocked (fst s) \<longrightarrow> pc = Stuck"
  shows "watcherLocked (fst s') \<longrightarrow> pc' = Stuck"
proof (cases "pc = Stuck")
  case True
  with assms(1) show ?thesis by (simp add: ClusterCache_tick_def)
next
  case False
  with assms tick_unlocked [of s "cluster_env hub mo" _ pc] show ?thesis
    unfolding ClusterCache_tick_def by (metis fst_conv snd_conv)
qed

lemma life_tick_inv:
  assumes "ClusterCache_tick hub mo pc s = (pc', s')" "hub_served hub" "fair_orders mo"
    and "watch_inv w (watch_base cw0) cw0 (s, g)" "watcherLocked (fst s) \<longrightarrow> pc = Stuck"
    and "g_pc g \<noteq> Closing \<Longrightarrow> g_pc g \<noteq> Returned \<Longrightarrow>
      pass_ok_at hub w (w_user cw0) (visibleResources cw0) (pc', s')"
  shows "life_inv w cw0 (hub, pc', s', g)"
  using assms(2,6) watch_inv_steps [OF cluster_tick_steps assms(4), of hub mo pc] tick_keeps_lock [OF assms(1,5)]
  by (simp add: life_inv_def assms(1))

lemma life_watch_inv:
  assumes step: "watch_step w (s, g) (s', g')" and leaves: "leaves_cache w s s'"
    and life: "life_inv w cw0 (hub, pc, s, g)"
  shows "life_inv w cw0 (hub, pc, s', g')"
proof -
  have inv: "watch_inv w (watch_base cw0) cw0 (s, g)" using life by (simp add: life_inv_def)
  have inv': "watch_inv w (watch_base cw0) cw0 (s', g')"
    by (rule watch_inv_step [OF step inv])
  obtain cw where cw: "fmlookup (snd s) w = Some cw" "w_user cw = w_user cw0" "visibleResources cw = visibleResources cw0"
    by (rule watch_inv_watch [OF inv]) auto
  obtain cw' where cw': "fmlookup (snd s') w = Some cw'" "w_user cw' = w_user cw0"
    "visibleResources cw' = visibleResources cw0"
    "g_pc g' \<noteq> Closing \<Longrightarrow> g_pc g' \<noteq> Returned \<Longrightarrow> w \<in> set (watchers (fst s'))"
    by (rule watch_inv_watch [OF inv']) auto
  have "pass_ok_at hub w (w_user cw0) (visibleResources cw0) (pc, s')"
    if "g_pc g' \<noteq> Closing" "g_pc g' \<noteq> Returned"
    using closing_stays [OF step] that life
    by (intro pass_ok_at_watch [OF _ leaves cw'(1-3) cw cw'(4)]) (auto simp: life_inv_def)
  with inv' leaves life show ?thesis by (auto simp: life_inv_def leaves_cache_def)
qed

lemma life_inv_step:
  assumes "life_step w x y" "life_inv w cw0 x"
  shows "life_inv w cw0 y"
  using assms
proof (induction rule: life_step.induct)
  case (life_begin hub' mo s pc' s' hub g)
  then have inv: "watch_inv w (watch_base cw0) cw0 (s, g)" by (simp add: life_inv_def)
  have "pass_ok_at hub' w (w_user cw0) (visibleResources cw0) (pc', s')"
    if "g_pc g \<noteq> Closing" "g_pc g \<noteq> Returned"
  proof -
    have "pass_ok_at hub w (w_user cw0) (visibleResources cw0) (Idle, s)"
      using life_begin(4) that by (simp add: life_inv_def)
    then obtain cw where cw: "settled hub (fst s)" "follows hub (fst s) cw" "fmlookup (snd s) w = Some cw"
      "w \<in> set (watchers (fst s))" "w_user cw = w_user cw0" "visibleResources cw = visibleResources cw0"
      by (auto simp: pass_ok_at_def)
    from pass_ok_at_start [OF life_begin(1) cw(1-4)] show ?thesis
      unfolding life_begin(3) [symmetric] ClusterCache_tick_def cw(5,6) prod.collapse .
  qed
  with life_begin inv show ?case by (intro life_tick_inv) (auto simp: life_inv_def)
next
  case (life_tick pc mo hub s pc' s' g)
  have "pass_ok_at hub w (w_user cw0) (visibleResources cw0) (pc', s')"
    if "g_pc g \<noteq> Closing" "g_pc g \<noteq> Returned"
  proof -
    have "hub_served hub" "pass_ok_at hub w (w_user cw0) (visibleResources cw0) (pc, s)"
      using life_tick(4) that by (simp_all add: life_inv_def)
    from pass_tick_ok [OF this(1) life_tick(2) this(2)] show ?thesis
      unfolding life_tick(3) [symmetric] ClusterCache_tick_def .
  qed
  with life_tick show ?case by (intro life_tick_inv) (auto simp: life_inv_def)
qed (rule life_watch_inv)

abbreviation life_steps :: "watcher_id \<Rightarrow> life_state \<Rightarrow> life_state \<Rightarrow> bool" where
  "life_steps w \<equiv> (life_step w)\<^sup>*\<^sup>*"

lemma life_inv_steps: "life_steps w x y \<Longrightarrow> life_inv w cw0 x \<Longrightarrow> life_inv w cw0 y"
  by (induction rule: rtranclp_induct) (auto intro: life_inv_step)

lemma settled_new: "settled hub NewClusterCache"
  by (simp add: settled_def) (simp add: NewClusterCache_def NewAutchCache_def)

lemma life_inv_start:
  assumes "ClusterREST_Watch rest ord w ctx options s = Done (Inr r) s0" "range_order ord"
    and "hub_served hub" "cr_Lister rest = hub_clusters hub" "w \<notin> set (watchers (fst s))" "settled hub (fst s)"
  obtains cw0 user where "registered w cw0 s0" "ctx = Some (Some user)" "w_user cw0 = user"
    "life_inv w cw0 (hub, Idle, s0, watch_start)"
proof -
  obtain cw0 user where cw0: "registered w cw0 s0" "fresh_watch (watch_base cw0) cw0" "ctx = Some (Some user)"
    "w_user cw0 = user" "follows hub (fst s0) cw0" "same_caches (fst s) s0" "\<not> watcherLocked (fst s0)"
    by (rule ClusterREST_Watch_starts [OF assms(1-5)])
  note inv = watch_inv_start [OF cw0(1,2)]
  have settled: "settled hub (fst s0)"
    using cw0(6) assms(6) caches_fields [of "fst s0" "fst s"] by (simp add: settled_def same_caches_def)
  have heap: "fmlookup (snd s0) w = Some cw0" "w \<in> set (watchers (fst s0))"
    using cw0(1) inv by (auto simp: registered_def watch_start_def elim: watch_inv_watch)
  have "pass_ok_at hub w (w_user cw0) (visibleResources cw0) (Idle, s0)"
    by (rule pass_ok_atI [OF settled cw0(5) refl refl heap]) (simp add: settled cw0(5))
  with inv cw0(7) assms(3) have "life_inv w cw0 (hub, Idle, s0, watch_start)"
    by (simp add: life_inv_def)
  with cw0 show ?thesis using that by blast
qed

text \<open>Between two passes, what a client that has not stopped was sent adds up to its listing.\<close>

lemma life_replica:
  assumes "life_inv w cw0 (hub, Idle, (ac, heap), g)" "fmlookup heap w = Some cw" "\<not> userStop cw" "in_sight cw n"
  shows "fmlookup (replica (watch_base cw0) (produced g cw)) n = listed_version hub ac (w_user cw0) n"
proof -
  have inv: "local_inv w (watch_base cw0) cw0 ac cw g"
    using assms(1,2) by (simp add: life_inv_def watch_inv_def)
  have unlocked: "\<not> watcherLocked ac" using assms(1) by (simp add: life_inv_def)
  have "g_pc g \<noteq> Closing" "g_pc g \<noteq> Returned"
    using inv assms(3) by (auto simp: local_inv_def)
  then have "pass_ok_at hub w (w_user cw0) (visibleResources cw0) (Idle, (ac, heap))"
    using assms(1) by (simp add: life_inv_def)
  then have "follows hub ac cw"
    using assms(2) by (auto simp: pass_ok_at_def)
  with inv unlocked assms(3,4) show ?thesis
    by (simp add: local_inv_def follows_def)
qed


section \<open>Every pass settles the cache\<close>

text \<open>A watch that sees nothing follows anything, so that the assertions speak of the records alone.\<close>

lemma blind_sight: "visibleResources cw = {||} \<Longrightarrow> \<not> in_sight cw n"
  by (simp add: in_sight_def)

lemma following_fold:
  assumes "visibleResources cw = {||}"
    and "\<forall>rq \<in> set rqs. rq_resourceVersion rq = [] \<or> cluster_version hub (rq_name rq) = Some (rq_resourceVersion rq)"
    and "following hub ac0 cw done {} ac cw"
  shows "following hub ac0 cw (done |\<union>| fset_of_list (map rq_name (filter (\<lambda>rq. rq_resourceVersion rq \<noteq> []) rqs))) {}
    (fold (request_step (cluster_env hub mo)) rqs ac) cw"
  using assms(2,3)
proof (induction rqs arbitrary: "done" ac)
  case (Cons rq rqs)
  let ?ac = "request_step (cluster_env hub mo) rq ac"
    and ?done = "if rq_resourceVersion rq = [] then done else finsert (rq_name rq) done"
  have "following hub ac0 cw ?done {} ?ac cw"
  proof (cases "skipped ac rq")
    case True
    with Cons.prems following_skip [OF Cons.prems(2) True] show ?thesis by (auto simp: request_step_def)
  next
    case False
    have "watch_learns (rq_name rq) (renewed_version hub (fmlookup (reviewRecordStore ?ac) (rq_name rq)) cw (rq_name rq)) cw cw"
      using blind_sight [OF assms(1)] by (simp add: renewed_version_def watch_learns_refl)
    from following_review [OF Cons.prems(2) False _ refl this] Cons.prems(1) show ?thesis by simp
  qed
  from Cons.IH [OF _ this] Cons.prems(1) show ?case
    by (cases "rq_resourceVersion rq = []") (simp_all add: funion_finsert_left)
qed simp


lemma following_blind:
  "visibleResources cw = {||} \<Longrightarrow> following hub ac0 cw done pending ac cw \<longleftrightarrow>
     cluster_cache_ok ac
     \<and> (\<forall>n. n |\<in>| done \<longrightarrow> (\<exists>r. fmlookup (reviewRecordStore ac) n = Some r
          \<and> cluster_version hub n = Some (rq_resourceVersion (rr_request r))))"
  unfolding following_def using blind_sight [of cw] by blast

lemma all_requests_version:
  assumes "hub_served hub" "rq \<in> set (all_requests (cluster_env hub mo) ac)"
  shows "rq_resourceVersion rq = [] \<or> cluster_version hub (rq_name rq) = Some (rq_resourceVersion rq)"
proof (cases "rq \<in> set (binding_requests (cluster_env hub mo) ac)")
  case True
  then show ?thesis
    by (auto simp: binding_requests_def requests_of_binding_def binding_request_def split: sum.splits)
next
  case False
  with assms(2) show ?thesis
    using resource_request_version [OF assms(1)]
    by (cases "ClusterCache_ListResources (hub_clusters hub)")
      (auto simp: all_requests_def resource_requests_def)
qed

lemma sync_step_settles:
  assumes "hub_served hub" "fair_orders mo" "cluster_cache_ok ac"
  shows "settled hub (sync_step (cluster_env hub mo) ac)"
proof -
  let ?env = "cluster_env hub mo" and ?cw = "NewCacheWatcher undefined {||} undefined False"
  let ?rqs = "all_requests ?env ac"
  let ?ac = "fold (request_step ?env) ?rqs ac"
  have blind: "visibleResources ?cw = {||}" by simp
  have "following hub ac ?cw {||} {} ac ?cw"
    using assms(3) by (simp add: following_blind [OF blind])
  from following_fold [OF blind _ this, of ?rqs mo] all_requests_version [OF assms(1)]
  have F: "following hub ac ?cw (fset_of_list (map rq_name (filter (\<lambda>rq. rq_resourceVersion rq \<noteq> []) ?rqs))) {} ?ac ?cw"
    by auto
  obtain rqs where rqs: "ClusterCache_ListResources (hub_clusters hub) = Inr rqs"
    using assms(1) by (auto simp: hub_served_def ClusterCache_ListResources_def)
  have names: "hub_names hub |\<subseteq>| fset_of_list (map rq_name (filter (\<lambda>rq. rq_resourceVersion rq \<noteq> []) ?rqs))"
    using resource_request_version [OF assms(1) rqs] known_names_cluster [of hub mo]
    by (auto simp: known_names_def all_requests_def resource_requests_def rqs fset_of_list_elem
        simp del: known_names_cluster)
  have "following hub ac ?cw (hub_names hub) (fset (allKnownNames ?ac)) ?ac ?cw"
    using F names unfolding following_blind [OF blind] by blast
  from following_purge [OF this assms(1) refl, of mo] assms(2)
  have P: "following hub ac ?cw (hub_names hub) (fset (allKnownNames ?ac |-| hub_names hub)) (purge ?env ?ac) ?cw"
    "\<forall>n. n |\<notin>| hub_names hub \<longrightarrow> fmlookup (reviewRecordStore (purge ?env ?ac)) n = None"
    by (auto simp: fair_orders_def)
  have "n |\<in>| hub_names hub \<and> cluster_version hub n = Some (rq_resourceVersion (rr_request r))"
    if "fmlookup (reviewRecordStore (purge ?env ?ac)) n = Some r" for n r
    using that P(2) following_done [OF P(1), of n] by (cases "n |\<in>| hub_names hub") auto
  then show ?thesis
    using cluster_sync_ok [OF assms(3,2), of hub] by (simp add: settled_def sync_step_def)
qed

text \<open>A pass that returns is a run of the life of any watch.\<close>

lemma life_pass:
  assumes "hub_served hub'" "fair_orders mo" "ClusterCache_synchronize hub' mo s = Done () s'"
  shows "life_steps w (hub, Idle, s, g) (hub', Idle, s', g)"
proof -
  let ?gmc = "GroupMembershipChanged (ClusterCache_watchable (mo_names mo) (fst s) (hub_clusters hub'))"
  obtain x where x: "tick_rel (cluster_env hub' mo) ?gmc (Idle, s) x"
    "ticks (cluster_env hub' mo) ?gmc x (Idle, s')"
    using pass_ticks [of "cluster_env hub' mo" ?gmc s] assms(3) by (auto simp: ClusterCache_synchronize_def)
  have tick: "life_step w (h, fst y, snd y, g) (hub', fst z, snd z, g)"
    if "tick_rel (cluster_env hub' mo) ?gmc y z" "fst y = Idle \<or> h = hub'" for y z h
    using that assms(1,2) life_begin [of hub' mo "snd y" "fst z" "snd z" w h g]
      life_tick [of "fst y" mo hub' "snd y" "fst z" "snd z" w g]
    by (cases "fst y = Idle") (auto simp: cluster_tick_rel)
  have "life_steps w (hub', fst x, snd x, g) (hub', Idle, s', g)"
    using x(2)
  proof (induction rule: converse_rtranclp_induct)
    case (step y z)
    show ?case
      by (rule converse_rtranclp_into_rtranclp [OF tick [OF step(1)] step(3)]) simp
  qed simp
  moreover have "life_step w (hub, Idle, s, g) (hub', fst x, snd x, g)"
    using tick [OF x(1), of hub] by simp
  ultimately show ?thesis by (rule converse_rtranclp_into_rtranclp [rotated])
qed

end
