(* ===== verification/Watch_Policy.thy ===== *)
theory Watch_Policy
  imports Watch_Life
begin

text \<open>
  What the events of a watch of clusters carry. A policy says which events may be put on the
  channel of a watch; the ticks of the synchronisation keep every policy that admits
  deletions and the changes of names that a review grants to the user of the watch.
\<close>

section \<open>Policies\<close>

text \<open>The channel of the watch holds events of the policy only, and the watch is of this user.\<close>

definition fits :: "(watch_event \<Rightarrow> bool) \<Rightarrow> user_info \<Rightarrow> watch \<Rightarrow> bool" where
  "fits P u cw \<longleftrightarrow> w_user cw = u \<and> (\<forall>e \<in> set (cacheIncoming cw). P e)"

definition queues :: "(watch_event \<Rightarrow> bool) \<Rightarrow> user_info \<Rightarrow> watcher_id \<Rightarrow> watch_heap sys \<Rightarrow> bool" where
  "queues P u w s \<longleftrightarrow> (\<forall>cw. fmlookup (snd s) w = Some cw \<longrightarrow> fits P u cw)"

lemma fits_simps [simp]:
  "fits P u (cw\<lparr>knownResources := m\<rparr>) = fits P u cw"
  "fits P u (cw\<lparr>cacheError := es\<rparr>) = fits P u cw"
  "fits P u (cw\<lparr>cacheIncoming := cacheIncoming cw @ [e]\<rparr>) \<longleftrightarrow> fits P u cw \<and> P e"
  by (auto simp: fits_def)

lemma queues_upd:
  "queues P u w (ac, heap) \<Longrightarrow> (v = w \<Longrightarrow> fits P u cw)
     \<Longrightarrow> queues P u w (ac', fmupd v cw heap)"
  by (simp add: queues_def)

lemma with_lock_queues:
  assumes "\<And>ac. run_all (queues P u w) (body (ac, snd s))" "queues P u w s"
  shows "run_all (queues P u w) (with_lock body s)"
  using assms(1) [of "(fst s)\<lparr>watcherLocked := True\<rparr>"] assms(2)
  by (cases "body ((fst s)\<lparr>watcherLocked := True\<rparr>, snd s)")
    (auto simp: with_lock_def queues_def split: prod.split)

lemma push_queues:
  assumes "queues P u w (ac, heap)"
    and "v = w \<Longrightarrow> fits P u cw \<and> P ev"
  shows "run_all (queues P u w) (push_event (ClusterCache_watchable ord a l) v ev err cw (ac, heap))"
proof (cases "length (cacheIncoming cw) < cacheIncoming_cap")
  case True
  with assms show ?thesis by (auto simp: push_event_def intro!: queues_upd)
next
  case False
  have heap: "queues P u w (ac', fmupd v cw heap)" for ac'
    using assms by (intro queues_upd) auto
  have send: "queues P u w s \<Longrightarrow> run_all (queues P u w) (send_error v err s)" for s
    by (cases s) (auto simp: send_error_def queues_def split: option.split)
  have "run_all (queues P u w) (RemoveWatcher v (ac, fmupd v cw heap))"
    unfolding RemoveWatcher_def by (rule with_lock_queues) (simp_all add: heap)
  with False send show ?thesis
    by (simp add: push_event_def ClusterCache_watchable_def run_all_bind)
qed

text \<open>The user is among the subjects of a notification.\<close>

definition subject_of :: "user_info \<Rightarrow> string fset \<Rightarrow> string fset \<Rightarrow> bool" where
  "subject_of u us gs \<longleftrightarrow> user_Name u |\<in>| us \<or> (\<exists>g \<in> set (user_Groups u). g |\<in>| gs)"

locale event_policy =
  fixes P :: "watch_event \<Rightarrow> bool"
    and clusterLister :: "managed_cluster lister"
    and granted :: "string \<Rightarrow> bool"
  assumes deleted: "P \<lparr>ev_Type = Deleted, ev_Object = Item (ManagedCluster c)\<rparr>"
    and changed: "ty = Added \<or> ty = Modified \<Longrightarrow> lister_Get clusterLister n = Inr c \<Longrightarrow> granted n
      \<Longrightarrow> P \<lparr>ev_Type = ty, ev_Object = Item (ManagedCluster c)\<rparr>"
begin

lemma gmc_queues:
  assumes "queues P u w s" "subject_of u us gs \<Longrightarrow> granted n"
  shows "run_all (queues P u w) (GroupMembershipChanged (ClusterCache_watchable ord a clusterLister) v n us gs s)"
proof (cases "fmlookup (snd s) v")
  case None
  with assms show ?thesis by (cases s) (simp add: GroupMembershipChanged_def)
next
  case (Some cw)
  obtain ac heap where s: "s = (ac, heap)" by (cases s)
  let ?wc = "ClusterCache_watchable ord a clusterLister"
  have access: "(user_Name (w_user cw) |\<in>| us \<or> list_ex (\<lambda>g. g |\<in>| gs) (user_Groups (w_user cw)))
      = subject_of (w_user cw) us gs"
    by (simp add: subject_of_def list_ex_iff)
  have push: "run_all (queues P u w) (push_event ?wc v ev err (cw\<lparr>knownResources := m\<rparr>) (ac, heap))"
    if "v = w \<Longrightarrow> P ev" for ev err m
    using assms(1) Some that s by (intro push_queues) (auto simp: queues_def)
  have user: "w_user cw = u" if "v = w"
    using assms(1) Some that s by (simp add: queues_def fits_def)
  obtain d where d: "wc_ConvertResource ?wc n = ManagedCluster d"
    by (simp add: ClusterCache_watchable_def ClusterCache_ConvertResource_def)
  have get: "wc_Get ?wc n = map_sum id ManagedCluster (lister_Get clusterLister n)"
    by (simp add: ClusterCache_watchable_def ClusterCache_Get_def)
  show ?thesis
  proof (cases "lister_Get clusterLister n")
    case (Inl err)
    with Some assms(1) push deleted show ?thesis
      by (simp add: s GroupMembershipChanged_def Let_def access get d)
  next
    case (Inr c)
    have "run_all (queues P u w) (push_event ?wc v \<lparr>ev_Type = ty, ev_Object = Item (ManagedCluster c)\<rparr> err
        (cw\<lparr>knownResources := m\<rparr>) (ac, heap))"
      if "subject_of (w_user cw) us gs" "ty = Added \<or> ty = Modified" for ty err m
      using user that assms(2) by (intro push changed [OF that(2) Inr]) auto
    with Some assms(1) Inr push deleted show ?thesis
      by (simp add: s GroupMembershipChanged_def Let_def access get d)
  qed
qed

lemma notify_queues:
  assumes "queues P u w s" "subject_of u us gs \<Longrightarrow> granted n"
  shows "run_all (queues P u w)
    (notifyWatchers (GroupMembershipChanged (ClusterCache_watchable ord a clusterLister)) n us gs s)"
proof -
  have "queues P u w (ac, snd s)" for ac
    using assms(1) by (simp add: queues_def)
  then show ?thesis
    unfolding notifyWatchers_def using assms
    by (intro with_lock_queues run_all_for_each gmc_queues) auto
qed

text \<open>A request grants what the review it causes says.\<close>

lemma request_queues:
  assumes "queues P u w s"
    and "\<And>rv. reviewed env (fst s) (rq_name rq) = Inr rv
      \<Longrightarrow> subject_of u (fset_of_list (review_Users rv)) (fset_of_list (review_Groups rv)) \<Longrightarrow> granted (rq_name rq)"
  shows "run_all (queues P u w)
    (syncRequest env (GroupMembershipChanged (ClusterCache_watchable ord a clusterLister)) rq s)"
proof -
  obtain ac heap where s: "s = (ac, heap)" by (cases s)
  have "queues P u w (request_step env rq ac, heap)"
    using assms(1) by (simp add: s queues_def)
  with assms show ?thesis
    by (auto simp: s syncRequest_eq intro!: run_all_bind notify_queues split: sum.split)
qed

end


section \<open>Ticks keep a policy\<close>

text \<open>What a review over this environment grants to the user.\<close>

definition reviews_grant :: "sync_env \<Rightarrow> auth_cache \<Rightarrow> user_info \<Rightarrow> (string \<Rightarrow> bool) \<Rightarrow> bool" where
  "reviews_grant env ac u granted \<longleftrightarrow>
     (\<forall>n rv. reviewed env ac n = Inr rv
        \<longrightarrow> subject_of u (fset_of_list (review_Users rv)) (fset_of_list (review_Groups rv)) \<longrightarrow> granted n)"

lemma no_subject [simp]: "\<not> subject_of u {||} {||}"
  by (simp add: subject_of_def)

context event_policy
begin

lemma tick_queues:
  assumes "queues P u w s" "reviews_grant env (fst s) u granted"
  shows "queues P u w (snd (pass_tick env (GroupMembershipChanged (ClusterCache_watchable ord a clusterLister)) pc s))"
proof -
  let ?gmc = "GroupMembershipChanged (ClusterCache_watchable ord a clusterLister)"
  have request: "queues P u w (run_state (syncRequest env ?gmc rq s))" for rq
    using request_queues [OF assms(1), of env rq ord a] assms(2)
    by (simp add: reviews_grant_def run_all_state)
  have gone: "queues P u w (run_state (notifyWatchers ?gmc n {||} {||} s))" for n
    using notify_queues [OF assms(1), of "{||}" "{||}" n ord a] by (simp add: run_all_state)
  have same: "queues P u w (ac, snd s)" for ac
    using assms(1) by (simp add: queues_def)
  show ?thesis
  proof (cases "(env, ?gmc, pc, s)" rule: pass_tick.cases)
    case (3 env' gmc' rq rest names st s')
    with request [of rq] show ?thesis by auto
  next
    case (8 env' gmc' b cr n others rest names st s')
    with request [of "binding_request b cr n"] show ?thesis by auto
  next
    case (11 env' gmc' n others names st s')
    with gone [of n] show ?thesis by auto
  qed (use assms(1) same in \<open>auto simp: Let_def split: sum.split prod.split\<close>)
qed

end

section \<open>Under the server\<close>

text \<open>
  A watch under the running server: the ticks of the passes, each on a hub of its own, which
  the history records, and the steps of the watch, of its client and of others.
\<close>

type_synonym served_state = "hub list \<times> pass_pc \<times> watch_sys"

inductive served_step :: "watcher_id \<Rightarrow> served_state \<Rightarrow> served_state \<Rightarrow> bool" for w where
  served_tick: "pc \<noteq> Stuck \<Longrightarrow> hub_ok hub \<Longrightarrow> fair_orders mo \<Longrightarrow> ClusterCache_tick hub mo pc s = (pc', s') \<Longrightarrow>
    served_step w (hs, pc, s, g) (hub # hs, pc', s', g)"
| served_watch: "watch_step w (s, g) (s', g') \<Longrightarrow> leaves_cache w s s' \<Longrightarrow>
    served_step w (hs, pc, s, g) (hs, pc, s', g')"

abbreviation served_steps :: "watcher_id \<Rightarrow> served_state \<Rightarrow> served_state \<Rightarrow> bool" where
  "served_steps w \<equiv> (served_step w)\<^sup>*\<^sup>*"

text \<open>These are steps of the server.\<close>

lemma served_server:
  assumes "served_step w (hs, pc, s, g) (hs', pc', s', g')" "GoClusterCacheRun period \<in> started fs"
    and "server_reach fs (sv\<lparr>sv_clusters := s, sv_clusters_pc := pc, sv_history := hs\<rparr>)"
  shows "server_reach fs (sv\<lparr>sv_clusters := s', sv_clusters_pc := pc', sv_history := hs'\<rparr>)"
  using assms(1)
proof cases
  case (served_tick hub mo)
  from server_reach_step [OF assms(3) cluster_tick [OF assms(2)]] served_tick show ?thesis by simp
next
  case served_watch
  then have "same_caches (fst (sv_clusters (sv\<lparr>sv_clusters := s, sv_clusters_pc := pc, sv_history := hs\<rparr>))) s'"
    by (simp add: leaves_cache_def)
  from server_reach_step [OF assms(3) cluster_client [OF this]]
  have "server_reach fs ((sv\<lparr>sv_clusters := s, sv_clusters_pc := pc, sv_history := hs\<rparr>)\<lparr>sv_clusters := s'\<rparr>)" .
  moreover have "(sv\<lparr>sv_clusters := s, sv_clusters_pc := pc, sv_history := hs\<rparr>)\<lparr>sv_clusters := s'\<rparr>
      = sv\<lparr>sv_clusters := s', sv_clusters_pc := pc, sv_history := hs\<rparr>"
    by (cases sv) simp
  ultimately show ?thesis using served_watch by simp
qed

lemma served_steps_server:
  assumes "served_steps w (sv_history sv, sv_clusters_pc sv, sv_clusters sv, g) x"
    and "GoClusterCacheRun period \<in> started fs" "server_reach fs sv"
  shows "server_reach fs (sv\<lparr>sv_clusters := fst (snd (snd x)), sv_clusters_pc := fst (snd x), sv_history := fst x\<rparr>)"
  using assms(1)
proof (induction rule: rtranclp_induct)
  case base
  then show ?case using assms(3) by simp
next
  case (step y z)
  then show ?case
    using served_server [of w "fst y" "fst (snd y)" "fst (snd (snd y))" "snd (snd (snd y))"
        "fst z" "fst (snd z)" "fst (snd (snd z))" "snd (snd (snd z))" period fs sv] assms(2)
    by simp
qed


section \<open>What is sent keeps to the policy\<close>

text \<open>Everything a client was sent, or still will be sent, if nothing changes.\<close>

definition sends :: "(watch_event \<Rightarrow> bool) \<Rightarrow> watcher_id \<Rightarrow> watch_sys \<Rightarrow> bool" where
  "sends P w x \<longleftrightarrow>
     (\<forall>cw. fmlookup (snd (fst x)) w = Some cw \<longrightarrow> (\<forall>e \<in> set (produced (snd x) cw). P e))"

lemma sends_mono: "sends P w x \<Longrightarrow> (\<And>e. P e \<Longrightarrow> Q e) \<Longrightarrow> sends Q w x"
  by (auto simp: sends_def)

lemma produced_set:
  "set (produced g cw) = set (g_out g @ in_hand (g_pc g) @ initial_left (g_pc g) cw) \<union> set (cacheIncoming cw)"
  by (auto simp: produced_def)

lemma initial_left_cong:
  "initialResources cw' = initialResources cw \<Longrightarrow> initial_left p cw' = initial_left p cw"
  by (cases p) simp_all

text \<open>A step that leaves the cache alone produces nothing new.\<close>

lemma watch_step_produced:
  assumes "watch_step w x y" "watch_inv w base cw0 x" "leaves_cache w (fst x) (fst y)"
    and "fmlookup (snd (fst x)) w = Some cw" "fmlookup (snd (fst y)) w = Some cw'"
  shows "set (produced (snd y) cw') \<subseteq> set (produced (snd x) cw)"
proof -
  have inv: "watch_inv w base cw0 y" by (rule watch_inv_step [OF assms(1,2)])
  have init: "initialResources cw' = initialResources cw" "pc_ok (g_pc (snd x)) cw" "cacheError cw = []"
    using assms(2,4,5) inv by (auto simp: watch_inv_def local_inv_def)
  show ?thesis
  proof (cases "snd y = snd x")
    case True
    have "set (cacheIncoming cw') \<subseteq> set (cacheIncoming cw)"
      using assms(3-5) by (auto simp: leaves_cache_def only_takes_def dest: set_mono_suffix)
    with True show ?thesis
      by (auto simp: produced_set initial_left_cong [OF init(1)])
  next
    case False
    with assms(1,4,5) init show ?thesis
    proof (induction rule: watch_step.induct)
      case (emit_init heap cw1 g i ac)
      then show ?case
        by (auto simp: produced_def simp flip: Cons_nth_drop_Suc)
    next
      case (emit_init_stopped heap cw1 g i ac)
      then show ?case using set_drop_subset_set_drop [of i "Suc i" "initialResources cw'"]
        by (auto simp: produced_def)
    next
      case (remove g s s')
      then show ?case by (cases s) (auto simp: produced_def RemoveWatcher_eq split: if_splits)
    qed (auto simp: produced_def)
  qed
qed

lemma watch_step_sends:
  assumes "watch_step w x y" "watch_inv w base cw0 x" "leaves_cache w (fst x) (fst y)" "sends P w x"
  shows "sends P w y"
proof -
  obtain cw where "fmlookup (snd (fst x)) w = Some cw"
    using assms(2) by (auto simp: watch_inv_def)
  with watch_step_produced [OF assms(1-3)] assms(4) show ?thesis
    by (fastforce simp: sends_def)
qed

context event_policy
begin

lemma tick_sends:
  assumes "ClusterCache_tick hub mo pc s = (pc', s')" "hub_clusters hub = clusterLister" "hub_ok hub"
    and "reviews_grant (cluster_env hub mo) (fst s) (w_user cw0) granted"
    and "watch_inv w base cw0 (s, g)" "sends P w (s, g)"
  shows "sends P w (s', g)"
proof -
  have inv: "watch_inv w base cw0 (s', g)"
    using watch_inv_steps [OF cluster_tick_steps [OF assms(3)] assms(5), of mo pc] assms(1) by simp
  from assms(5) obtain cw where cw: "fmlookup (snd s) w = Some cw" "initialResources cw = initialResources cw0"
    "w_user cw = w_user cw0"
    by (auto simp: watch_inv_def local_inv_def)
  have "queues P (w_user cw0) w s"
    using assms(6) cw by (auto simp: sends_def queues_def fits_def produced_set)
  from tick_queues [OF this assms(4), of "mo_names mo" "fst s" pc] assms(1,2)
  have queue: "queues P (w_user cw0) w s'" by (simp add: ClusterCache_tick_def)
  have "P e" if "fmlookup (snd s') w = Some cw'" "e \<in> set (produced g cw')" for cw' e
  proof -
    have "initialResources cw' = initialResources cw"
      using inv that(1) cw(2) by (auto simp: watch_inv_def local_inv_def)
    then have "initial_left (g_pc g) cw' = initial_left (g_pc g) cw"
      by (rule initial_left_cong)
    with that queue cw(1) assms(6) show ?thesis
      by (auto simp: sends_def queues_def fits_def produced_set)
  qed
  then show ?thesis by (simp add: sends_def)
qed

end


section \<open>A pass under the server\<close>

lemma served_pass:
  assumes "hub_ok hub" "fair_orders mo" "ClusterCache_synchronize hub mo s = Done () s'"
  shows "\<exists>k. served_steps w (hs, Idle, s, g) (replicate k hub @ hs, Idle, s', g)"
proof -
  let ?gmc = "GroupMembershipChanged (ClusterCache_watchable (mo_names mo) (fst s) (hub_clusters hub))"
  obtain x where x: "tick_rel (cluster_env hub mo) ?gmc (Idle, s) x" "ticks (cluster_env hub mo) ?gmc x (Idle, s')"
    using pass_ticks [of "cluster_env hub mo" ?gmc s] assms(3) by (auto simp: ClusterCache_synchronize_def)
  have "ticks (cluster_env hub mo) ?gmc (Idle, s) (Idle, s')"
    using x by (rule converse_rtranclp_into_rtranclp)
  then have "\<exists>k. served_steps w (hs, Idle, s, g) (replicate k hub @ hs, fst (Idle, s'), snd (Idle, s'), g)"
  proof (induction rule: rtranclp_induct)
    case base
    show ?case by (intro exI [of _ 0]) simp
  next
    case (step y z)
    then obtain k where k: "served_steps w (hs, Idle, s, g) (replicate k hub @ hs, fst y, snd y, g)" by blast
    have z: "ClusterCache_tick hub mo (fst y) (snd y) = (fst z, snd z)"
      using step.hyps(2) by (simp add: cluster_tick_rel)
    show ?case
    proof (cases "fst y = Stuck")
      case True
      then have "z = y" using z by (simp add: ClusterCache_tick_def prod_eq_iff)
      with k show ?thesis by blast
    next
      case False
      from rtranclp.rtrancl_into_rtrancl [OF k served_tick [OF False assms(1,2) z]] show ?thesis
        by (intro exI [of _ "Suc k"]) simp
    qed
  qed
  then show ?thesis by simp
qed

end
