(* ===== verification/Watch_Kind.thy ===== *)
theory Watch_Kind
  imports Watch_Policy
begin

text \<open>
  Two policies for the events of a watch of clusters, kept by every interleaving under the
  server: they carry clusters, and what they add or change was granted to the user of the
  watch on a hub that some tick read.
\<close>

section \<open>Events of clusters\<close>

definition cluster_event :: "watch_event \<Rightarrow> bool" where
  "cluster_event e = (case ev_Object e of Item (ManagedCluster c) \<Rightarrow> True | _ \<Rightarrow> False)"

lemma cluster_event_iff: "cluster_event e \<longleftrightarrow> (\<exists>c. ev_Object e = Item (ManagedCluster c))"
  by (simp add: cluster_event_def split: runtime_object.split api_object.split)

interpretation kind: event_policy cluster_event clusterLister "\<lambda>n. True" for clusterLister
  by unfold_locales (simp_all add: cluster_event_def)

section \<open>Events that were granted\<close>

definition granted_on :: "hub list \<Rightarrow> user_info \<Rightarrow> string \<Rightarrow> bool" where
  "granted_on hs u n \<longleftrightarrow> (\<exists>hub \<in> set hs. hub_lists hub u n)"

definition granted_event :: "hub list \<Rightarrow> user_info \<Rightarrow> watch_event \<Rightarrow> bool" where
  "granted_event hs u e \<longleftrightarrow>
     ev_Type e = Deleted \<or> (case ev_Object e of Item obj \<Rightarrow> granted_on hs u (GetName obj) | _ \<Rightarrow> False)"

lemma granted_on_more: "granted_on hs u n \<Longrightarrow> granted_on (hub # hs) u n"
  by (auto simp: granted_on_def)

lemma granted_event_more: "granted_event hs u e \<Longrightarrow> granted_event (hub # hs) u e"
  by (auto simp: granted_event_def granted_on_more split: runtime_object.splits)

lemma granted_policy:
  assumes "hub_ok hub"
  shows "event_policy (granted_event hs u) (hub_clusters hub) (granted_on hs u)"
  using assms by unfold_locales (auto simp: granted_event_def hub_ok_def GetName_def ClusterName_def)

interpretation sample_policy: event_policy "granted_event hs u" "clusterInformer_lister o' cs" "granted_on hs u"
  for hs u o' cs
  by unfold_locales (auto simp: granted_event_def GetName_def ClusterName_def clusterInformer_lister_def
      dest: filed.get_name)

text \<open>A review on a hub grants what RBAC lets the user get there.\<close>

lemma reviews_granted:
  assumes "ac_group ac = cluster_group" "ac_resource ac = ''managedclusters''" "hub \<in> set hs"
  shows "reviews_grant (cluster_env hub mo) ac u (granted_on hs u)"
  unfolding reviews_grant_def
proof (intro allI impI)
  fix n rv
  assume rv: "reviewed (cluster_env hub mo) ac n = Inr rv"
    and subject: "subject_of u (fset_of_list (review_Users rv)) (fset_of_list (review_Groups rv))"
  have "Review (hub_evaluator hub) cluster_group ''managedclusters'' n = Inr rv"
    using rv assms(1,2) by (simp add: reviewed_def cluster_env_def hub_env_def)
  from rbac_reviewer.users_iff [OF this] rbac_reviewer.groups_iff [OF this] subject
  have "hub_lists hub u n"
    by (auto simp: hub_lists_def subject_of_def fset_of_list_elem)
  with assms(3) show "granted_on hs u n" by (auto simp: granted_on_def)
qed

section \<open>The invariant under the server\<close>

definition served_inv :: "watcher_id \<Rightarrow> watch \<Rightarrow> served_state \<Rightarrow> bool" where
  "served_inv w cw0 x \<longleftrightarrow>
     (case x of (hs, pc, s, g) \<Rightarrow>
        watch_inv w (watch_base cw0) cw0 (s, g) \<and> granted_inv hs (fst s)
        \<and> sends cluster_event w (s, g) \<and> sends (granted_event hs (w_user cw0)) w (s, g))"

lemma served_inv_step:
  assumes "served_step w x y" "served_inv w cw0 x"
  shows "served_inv w cw0 y"
  using assms
proof (induction rule: served_step.induct)
  case (served_tick pc hub mo s pc' s' hs g)
  then have inv: "watch_inv w (watch_base cw0) cw0 (s, g)" "granted_inv hs (fst s)"
    "sends cluster_event w (s, g)" "sends (granted_event hs (w_user cw0)) w (s, g)"
    by (simp_all add: served_inv_def)
  have "watch_inv w (watch_base cw0) cw0 (s', g)"
    using watch_inv_steps [OF cluster_tick_steps [OF served_tick(2)] inv(1), of mo pc] served_tick(4) by simp
  moreover have "granted_inv (hub # hs) (fst s')"
    using cluster_tick_granted [OF inv(2) served_tick(2,3), of pc] served_tick(4) by simp
  moreover have "sends cluster_event w (s', g)"
    by (rule kind.tick_sends [OF served_tick(4) refl served_tick(2) _ inv(1,3)]) (simp add: reviews_grant_def)
  moreover have "sends (granted_event (hub # hs) (w_user cw0)) w (s', g)"
  proof (rule event_policy.tick_sends [OF granted_policy [OF served_tick(2)] served_tick(4) refl served_tick(2) _ inv(1)])
    show "reviews_grant (cluster_env hub mo) (fst s) (w_user cw0) (granted_on (hub # hs) (w_user cw0))"
      using inv(2) by (intro reviews_granted) (simp_all add: granted_inv_def)
    show "sends (granted_event (hub # hs) (w_user cw0)) w (s, g)"
      using inv(4) by (rule sends_mono) (rule granted_event_more)
  qed
  ultimately show ?case by (simp add: served_inv_def)
next
  case (served_watch s g s' g' hs pc)
  then have inv: "watch_inv w (watch_base cw0) cw0 (s, g)" "leaves_cache w (fst (s, g)) (fst (s', g'))"
    by (simp_all add: served_inv_def)
  from watch_inv_step [OF served_watch(1) inv(1)] watch_step_sends [OF served_watch(1) inv]
    granted_inv_same [of "fst s" s' hs] served_watch(2,3)
  show ?case by (simp add: served_inv_def leaves_cache_def)
qed

lemma served_inv_steps: "served_steps w x y \<Longrightarrow> served_inv w cw0 x \<Longrightarrow> served_inv w cw0 y"
  by (induction rule: rtranclp_induct) (auto intro: served_inv_step)

section \<open>The start of a watch\<close>

text \<open>The initial resources are clusters the user is listed.\<close>

lemma initial_resources:
  assumes "obj \<in> set (initialResources (NewCacheWatcher u vis (ClusterCache_watchable ord ac l) all))"
    and "range_order ord" "\<And>n c. lister_Get l n = Inr c \<Longrightarrow> ClusterName c = n"
  shows "(\<exists>c. obj = ManagedCluster c) \<and> GetName obj |\<in>| listNames ac u"
proof -
  let ?keys = "ord (sorted_list_of_fset (listNames ac u))"
  show ?thesis
  proof (cases "cluster_list_loop l Everything ?keys []")
    case (Inl e)
    with assms(1) show ?thesis
      by (simp add: NewCacheWatcher_def ClusterCache_watchable_def ClusterCache_ListObjects_def
          ClusterCache_List_def split: if_splits)
  next
    case (Inr cs)
    then have "obj \<in> ManagedCluster ` set cs"
      using assms(1) by (cases all) (simp_all add: NewCacheWatcher_def ClusterCache_watchable_def
          ClusterCache_ListObjects_def ClusterCache_List_def Let_def)
    with clusters.loop_set [OF Inr] assms(2,3) show ?thesis
      by (auto simp: sorted_list_of_fset.rep_eq GetName_def ClusterName_def)
  qed
qed

lemma served_inv_start:
  assumes "ClusterREST_Watch rest ord w (Some (Some user)) options s = Done (Inr r) s0" "range_order ord"
    and "\<And>n c. lister_Get (cr_Lister rest) n = Inr c \<Longrightarrow> ClusterName c = n"
    and "w \<notin> set (watchers (fst s))" "granted_inv hs (fst s)"
  obtains cw0 where "fmlookup (snd s0) w = Some cw0" "w_user cw0 = user" "served_inv w cw0 (hs, pc, s0, watch_start)"
proof -
  obtain cw0 where cw0: "registered w cw0 s0" "fresh_watch (watch_base cw0) cw0" "w_user cw0 = user"
    by (rule ClusterREST_Watch_registered [OF assms(1-4)]) auto
  obtain vis where out: "watch_outcome w user vis (ClusterCache_watchable ord (fst s) (cr_Lister rest)) s s0"
    using ClusterREST_Watch_ok [OF assms(1)] by (metis option.inject)
  then obtain all where cw: "cw0 = NewCacheWatcher user vis (ClusterCache_watchable ord (fst s) (cr_Lister rest)) all"
    using cw0(1) by (auto simp: watch_outcome_def registered_def)
  have sent: "produced watch_start cw0 = map initial_event (initialResources cw0)"
    using cw0(2) by (simp add: produced_def watch_start_def fresh_watch_def)
  have event: "cluster_event (initial_event obj) \<and> granted_event hs user (initial_event obj)"
    if "obj \<in> set (initialResources cw0)" for obj
    using initial_resources [OF that [unfolded cw] assms(2,3)] granted_lists [OF assms(5)]
    by (auto simp: cluster_event_iff granted_event_def granted_on_def initial_event_def)
  have heap: "fmlookup (snd s0) w = Some cw0" using cw0(1) by (simp add: registered_def)
  have "granted_inv hs (fst s0)"
    using granted_inv_same [OF watch_outcome_frame [OF out] assms(5)] .
  with watch_inv_start [OF cw0(1,2)] event have "served_inv w cw0 (hs, pc, s0, watch_start)"
    by (auto simp: served_inv_def sends_def heap sent cw0(3))
  with heap cw0(3) show ?thesis by (rule that)
qed

end
