(* ===== verification/Props_Life.thy ===== *)
theory Props_Life
  imports Watch_Kind Sample_Server
begin

text \<open>
  Properties of a watch over its whole life, with the synchronisation in ticks, the hub
  changing between passes, and the goroutine and the client of the watch in between.
\<close>


text \<open>The sample: a watch of \<open>alice\<close>, and then a pass over a hub where \<open>c1\<close> has changed.\<close>

definition new_c1 :: managed_cluster where "new_c1 = sample_cluster ''c1'' ''2''"

definition changed_hub :: hub where
  "changed_hub = sample_hub [new_c1, c2] [alice_binding, ops_binding]"

definition changed_pass :: "watch_heap sys \<Rightarrow> (unit, watch_heap sys) run" where
  "changed_pass = ClusterCache_synchronize changed_hub sample_orders"

lemma sample_hub_served:
  assumes "\<forall>c \<in> set cs. meta_ResourceVersion (mc_Meta c) \<noteq> []"
    and "\<exists>cs'. lister_List (clusterInformer_lister id cs) = Inr cs' \<and> set cs' \<subseteq> set cs"
  shows "hub_served (sample_hub cs bs)"
  using assms clusterInformer_contract clusterInformer_errors by (auto simp: hub_served_def subset_iff)

lemma sample_lists:
  "lister_List (clusterInformer_lister id [new_c1, c2]) = Inr [new_c1, c2]"
  by code_simp

lemma sample_served: "hub_served full_hub" "hub_served changed_hub"
  unfolding changed_hub_def
  by (rule sample_hub_served; simp add: sample_lists; simp add: c1_def c2_def new_c1_def sample_cluster_def)+


lemma sample_request:
  obtains r s0 where "ClusterREST_Watch (sample_rest [c1, c2]) id 7 (Some (Some scoped_alice)) (Some from_zero)
      sample_state = Done (Inr r) s0" "run_state (watch_request scoped_alice) = s0"
  by (rule watch_request_ok [OF scoped_request_accepted])



text \<open>C8: a watch shows only what was granted: take a watch request at any time in the life of the
  server, also while a pass is under way, and any interleaving after it, with ticks that each
  read a hub of their own. Every event the client was or will be sent that is not a deletion
  carries an object whose name RBAC let the user of the watch get, on a hub that some tick
  had read.\<close>

theorem watch_shows_granted:
  assumes "NewFilterServer newServer install scheme = Inr fs" "server_reach fs sv"
    and "ClusterREST_Watch rest ord w (Some (Some user)) options (sv_clusters sv) = Done (Inr r) s0"
    and "range_order ord" "\<And>n c. lister_Get (cr_Lister rest) n = Inr c \<Longrightarrow> ClusterName c = n"
    and "w \<notin> set (watchers (fst (sv_clusters sv)))"
    and "served_steps w (sv_history sv, sv_clusters_pc sv, s0, watch_start) (hs, pc, (ac, heap), g)"
    and "fmlookup heap w = Some cw" "e \<in> set (produced g cw)" "ev_Type e \<noteq> Deleted"
  shows "\<exists>obj. ev_Object e = Item obj \<and> (\<exists>hub \<in> set hs. hub_lists hub user (GetName obj))"
proof -
  have inv: "granted_inv (sv_history sv) (fst (sv_clusters sv))"
    using server_reach_inv [OF assms(1,2)] by (simp add: server_inv_def)
  obtain cw0 where cw0: "w_user cw0 = user"
    "served_inv w cw0 (sv_history sv, sv_clusters_pc sv, s0, watch_start)"
    by (rule served_inv_start [OF assms(3-6) inv])
  from served_inv_steps [OF assms(7) cw0(2)] have "granted_event hs user e"
    using assms(8,9) by (auto simp: served_inv_def sends_def cw0(1))
  with assms(10) show ?thesis
    by (auto simp: granted_event_def granted_on_def split: runtime_object.splits)
qed

text \<open>The sample under the sample server.\<close>

lemma sample_change_queued:
  "case changed_pass (run_state (watch_request scoped_alice)) of
     Blocked s \<Rightarrow> False
   | Done u s \<Rightarrow>
       (case fmlookup (snd s) 7 of
          None \<Rightarrow> False | Some cw \<Rightarrow> map ev_Type (cacheIncoming cw) = [Modified])"
  by code_simp

lemma sample_served_run:
  obtains k r s0 k' ac heap cw e where "server_reach sample_server (sample_running k)"
    "ClusterREST_Watch (sample_rest [c1, c2]) id 7 (Some (Some scoped_alice)) (Some from_zero)
       (sv_clusters (sample_running k)) = Done (Inr r) s0"
    "7 \<notin> set (watchers (fst (sv_clusters (sample_running k))))"
    "served_steps 7 (sv_history (sample_running k), sv_clusters_pc (sample_running k), s0, watch_start)
       (replicate k' changed_hub @ replicate k full_hub, Idle, (ac, heap), watch_start)"
    "fmlookup heap 7 = Some cw" "e \<in> set (cacheIncoming cw)" "ev_Type e = Modified"
proof -
  obtain k where k: "server_reach sample_server (sample_running k)"
    using sample_running_reach by blast
  obtain r s0 where req: "ClusterREST_Watch (sample_rest [c1, c2]) id 7 (Some (Some scoped_alice)) (Some from_zero)
      sample_state = Done (Inr r) s0" "run_state (watch_request scoped_alice) = s0"
    by (rule sample_request)
  obtain ac heap cw where s': "changed_pass s0 = Done () (ac, heap)" "fmlookup heap 7 = Some cw"
    "map ev_Type (cacheIncoming cw) = [Modified]"
    using sample_change_queued unfolding req(2) by (cases "changed_pass s0") (auto split: option.splits prod.splits)
  then obtain e where e: "cacheIncoming cw = [e]" "ev_Type e = Modified" by auto
  have "hub_ok changed_hub" by (simp add: changed_hub_def)
  from served_pass [OF this sample_orders_fair s'(1) [unfolded changed_pass_def], of 7 "replicate k full_hub" watch_start]
  obtain k' where "served_steps 7 (replicate k full_hub, Idle, s0, watch_start)
      (replicate k' changed_hub @ replicate k full_hub, Idle, (ac, heap), watch_start)" by blast
  with k req(1) s'(2) e show ?thesis
    by (intro that [of k r s0 k' ac heap cw e]) (simp_all add: sample_running_def sample_state_facts(4))
qed

theorem watch_shows_granted_witness:
  "\<exists>hub n. hub_lists hub scoped_alice n \<and> (hub = full_hub \<or> hub = changed_hub)"
proof -
  obtain k r s0 k' ac heap cw e where run: "server_reach sample_server (sample_running k)"
    "ClusterREST_Watch (sample_rest [c1, c2]) id 7 (Some (Some scoped_alice)) (Some from_zero)
       (sv_clusters (sample_running k)) = Done (Inr r) s0"
    "7 \<notin> set (watchers (fst (sv_clusters (sample_running k))))"
    "served_steps 7 (sv_history (sample_running k), sv_clusters_pc (sample_running k), s0, watch_start)
       (replicate k' changed_hub @ replicate k full_hub, Idle, (ac, heap), watch_start)"
    "fmlookup heap 7 = Some cw" "e \<in> set (cacheIncoming cw)" "ev_Type e = Modified"
    by (rule sample_served_run)
  have "e \<in> set (produced watch_start cw)" "ev_Type e \<noteq> Deleted"
    using run(6,7) by (simp_all add: produced_def)
  from watch_shows_granted [OF sample_server_new run(1,2) range_order_id(1) sample_rest_name run(3-5) this]
  show ?thesis by auto
qed






text \<open>C10: the initial list of a watch is the whole listing of its user, whatever the scopes: with
  the resource version 0 it names exactly the clusters the user is listed, also those that
  its scopes keep out of the later events, and without it nothing.\<close>

theorem initial_list_ignores_scopes:
  assumes "ClusterREST_Watch rest ord w (Some (Some user)) options s = Done (Inr r) s0" "range_order ord"
    and "hub_served hub" "cr_Lister rest = hub_clusters hub"
  shows "\<exists>cw. fmlookup (snd s0) w = Some cw
    \<and> GetName ` set (initialResources cw) =
        (if \<exists>opts. options = Some opts \<and> opt_ResourceVersion opts = ''0''
         then {n. listed_version hub (fst s) user n \<noteq> None} else {})"
proof -
  let ?wc = "ClusterCache_watchable ord (fst s) (cr_Lister rest)"
  obtain vis all where cw: "fmlookup (snd s0) w = Some (NewCacheWatcher user vis ?wc all)"
    "all \<longleftrightarrow> (\<exists>opts. options = Some opts \<and> opt_ResourceVersion opts = ''0'')"
    using assms(1) by (cases s) (auto simp: ClusterREST_Watch_def AddWatcher_eq Let_def
        split: option.splits sum.splits prod.splits if_splits)
  have "GetName ` set (initialResources (NewCacheWatcher user vis ?wc all))
      = (if all then {n. listed_version hub (fst s) user n \<noteq> None} else {})"
    unfolding NewCacheWatcher_initial assms(4) cluster_watch_knows [OF assms(3,2)] ..
  with cw show ?thesis by auto
qed

theorem initial_list_ignores_scopes_witness:
  "\<exists>cw. fmlookup (snd (run_state (watch_request alice))) 7 = Some cw
     \<and> ''c1'' \<in> GetName ` set (initialResources cw) \<and> \<not> in_sight cw ''c1''"
proof -
  obtain r s0 where req: "ClusterREST_Watch (sample_rest [c1, c2]) id 7 (Some (Some alice)) (Some from_zero)
      sample_state = Done (Inr r) s0" "run_state (watch_request alice) = s0"
    by (rule watch_request_ok [OF plain_request_accepted])
  have "listed_version full_hub (fst sample_state) alice ''c1'' = Some ''1''"
    "case fmlookup (snd (run_state (watch_request alice))) 7 of None \<Rightarrow> False | Some cw \<Rightarrow> \<not> in_sight cw ''c1''"
    by code_simp+
  moreover have "cr_Lister (sample_rest [c1, c2]) = hub_clusters full_hub" by simp
  ultimately show ?thesis
    using initial_list_ignores_scopes [OF req(1) range_order_id(1) sample_served(1)]
    unfolding req(2) by (auto simp: from_zero_def split: option.splits)
qed

end
