(* ===== verification/Command.thy ===== *)
theory Command
  imports Server
begin

text \<open>
  The command around the server: the options and their flags (\<^verbatim>\<open>pkg/cmd/options\<close>),
  \<open>main\<close> of \<^verbatim>\<open>cmd/server\<close>, and the build information of \<^verbatim>\<open>pkg/version\<close>. The option groups,
  the flag sets and the metrics registry belong to the API machinery: their types are type
  parameters, and their operations are the fields of the records of calls.
\<close>

section \<open>Options and flags\<close>

record ('r, 's, 'n, 'z) options =
  KubeConfigFile :: string
  opts_ServerRun :: 'r
  opts_SecureServing :: 's
  opts_Authentication :: 'n
  opts_Authorization :: 'z

record ('r, 'p, 's, 'n, 'z) option_makers =
  NewServerRunOptions :: 'r
  NewSecureServingOptions :: 'p
  WithLoopback :: "'p \<Rightarrow> 's"
  NewDelegatingAuthenticationOptions :: 'n
  NewDelegatingAuthorizationOptions :: 'z

definition NewOptions :: "('r, 'p, 's, 'n, 'z) option_makers \<Rightarrow> ('r, 's, 'n, 'z) options" where
  "NewOptions mk =
     \<lparr>KubeConfigFile = [],
      opts_ServerRun = NewServerRunOptions mk,
      opts_SecureServing = WithLoopback mk (NewSecureServingOptions mk),
      opts_Authentication = NewDelegatingAuthenticationOptions mk,
      opts_Authorization = NewDelegatingAuthorizationOptions mk\<rparr>"

text \<open>\<open>StringVar\<close> takes the name of the flag, its default and its usage.\<close>

record ('r, 's, 'n, 'z, 'f) flag_calls =
  StringVar :: "string \<Rightarrow> string \<Rightarrow> string \<Rightarrow> 'f \<Rightarrow> 'f"
  AddUniversalFlags :: "'r \<Rightarrow> 'f \<Rightarrow> 'f"
  SecureServing_AddFlags :: "'s \<Rightarrow> 'f \<Rightarrow> 'f"
  Authentication_AddFlags :: "'n \<Rightarrow> 'f \<Rightarrow> 'f"
  Authorization_AddFlags :: "'z \<Rightarrow> 'f \<Rightarrow> 'f"

definition AddFlags ::
  "('r, 's, 'n, 'z, 'f) flag_calls \<Rightarrow> ('r, 's, 'n, 'z) options \<Rightarrow> 'f \<Rightarrow> 'f" where
  "AddFlags calls opts fs =
     (let fs = StringVar calls ''kube-config-file'' (KubeConfigFile opts)
                 ''Kubernetes configuration file to connect to kube-apiserver'' fs;
          fs = AddUniversalFlags calls (opts_ServerRun opts) fs;
          fs = SecureServing_AddFlags calls (opts_SecureServing opts) fs;
          fs = Authentication_AddFlags calls (opts_Authentication opts) fs
      in Authorization_AddFlags calls (opts_Authorization opts) fs)"

section \<open>\<open>main\<close>\<close>

text \<open>
  \<open>initFlags\<close> parses the command line, which may change the options the flags point to;
  \<open>run\<close> is \<open>Run\<close> with a channel that is never closed. The result is what is written to the
  error output, and the exit code of the process.
\<close>

definition server_main ::
  "('r, 'p, 's, 'n, 'z) option_makers \<Rightarrow> ('r, 's, 'n, 'z, 'f) flag_calls
    \<Rightarrow> ('f \<Rightarrow> ('r, 's, 'n, 'z) options \<Rightarrow> ('r, 's, 'n, 'z) options) \<Rightarrow> (go_error \<Rightarrow> string) \<Rightarrow> 'f
    \<Rightarrow> (('r, 's, 'n, 'z) options \<Rightarrow> go_error option) \<Rightarrow> string \<times> nat" where
  "server_main mk calls initFlags render commandLine run =
     (let opts = NewOptions mk;
          fs = AddFlags calls opts commandLine;
          opts = initFlags fs opts
      in case run opts of
           Some err \<Rightarrow> (render err @ ''\<newline>'', 1)
         | None \<Rightarrow> ([], 0))"

text \<open>The process fails exactly if the startup chain or the running server does.\<close>

lemma server_main_Run:
  "snd (server_main mk calls initFlags err fs (\<lambda>opts. fst (Run rc scheme opts))) \<noteq> 0 \<longleftrightarrow>
     fst (Run rc scheme (initFlags (AddFlags calls (NewOptions mk) fs) (NewOptions mk))) \<noteq> None"
  by (simp add: server_main_def Let_def split: option.split)

section \<open>Build information\<close>

record build_vars =
  commitFromGit :: string
  versionFromGit :: string
  majorFromGit :: string
  minorFromGit :: string
  buildDate :: string

text \<open>\<^verbatim>\<open>version.Info\<close> of the API machinery; what is not filled in is empty.\<close>

record version_info =
  Major :: string
  Minor :: string
  GitCommit :: string
  GitVersion :: string
  GitTreeState :: string
  BuildDate :: string
  GoVersion :: string
  Compiler :: string
  Platform :: string

definition version_Get :: "build_vars \<Rightarrow> version_info" where
  "version_Get v =
     \<lparr>Major = majorFromGit v, Minor = minorFromGit v, GitCommit = commitFromGit v,
      GitVersion = versionFromGit v, GitTreeState = [], BuildDate = buildDate v,
      GoVersion = [], Compiler = [], Platform = []\<rparr>"

record gauge =
  gauge_Name :: string
  gauge_values :: "((string \<times> string) list \<times> int) list"   \<comment> \<open>by labels\<close>

text \<open>The package initialiser: \<open>mustRegister\<close> is \<open>None\<close> where the registry panics.\<close>

definition version_init :: "(gauge \<Rightarrow> 'm \<Rightarrow> 'm option) \<Rightarrow> build_vars \<Rightarrow> 'm \<Rightarrow> 'm option" where
  "version_init mustRegister v registry =
     (let labels = [''major'', ''minor'', ''gitCommit'', ''gitVersion''];
          buildInfo =
            \<lparr>gauge_Name = ''open_cluster_management_registration_build_info'',
             gauge_values =
               [(zip labels [majorFromGit v, minorFromGit v, commitFromGit v, versionFromGit v], 1)]\<rparr>
      in mustRegister buildInfo registry)"

end
