(* ===== verification/Spec2Isabelle.thy ===== *)
theory Spec2Isabelle
  imports Props_Pass Props_Watch Props_Access Props_Server Props_Life Command
begin

text \<open>
  A verification of the clusterset server.

  \<^bold>\<open>The program.\<close> The server is an aggregated Kubernetes API server for the group
  \<^verbatim>\<open>view.open-cluster-management.io\<close>. It serves to every user a filtered view of the
  managed clusters and cluster sets of a hub: a user lists and watches exactly those that
  RBAC lets the user get. Its parts, with the theories that model them:

  \<^item> \<^verbatim>\<open>pkg/cache/rbac\<close>: who may do what. \<open>Rbac_Allow\<close> has the rule matchers and the grouping
    of subjects of \<^verbatim>\<open>allow.go\<close>; \<open>Rbac_Review\<close> has \<open>AllowedSubjects\<close> of
    \<^verbatim>\<open>subject_locator.go\<close>, which walks the cluster role bindings, and \<open>Review\<close> of
    \<^verbatim>\<open>reviewer.go\<close>, which turns subjects into users and groups.
  \<^item> \<^verbatim>\<open>pkg/apis/helpers\<close>: the scopes a token may carry. \<open>Scopes\<close> has the parser and the
    evaluators, the removal of escalating resources and \<open>ScopesToVisibleNamespaces\<close> of
    \<^verbatim>\<open>scope.go\<close>, and \<^verbatim>\<open>matcher.go\<close>; \<open>Scope_Facts\<close> has their facts.
  \<^item> \<^verbatim>\<open>pkg/cache/common.go\<close>: the authorization cache. \<open>Auth_Store\<close> has its records, stores and
    the loops that keep the subject indexes; \<open>Auth_Cache\<close> has its state (the Go struct
    \<open>AuthCache\<close> is the record \<open>auth_cache\<close>), the synchronisation pass \<open>synchronize\<close> with every
    operation it calls, the watchers with their mutex, and \<open>listNames\<close>.
  \<^item> \<^verbatim>\<open>pkg/cache/watcher.go\<close>: watches. \<open>Cache_Watch\<close> has the part that runs on the goroutine of
    the pass, \<open>GroupMembershipChanged\<close>, and the creation of a watch; \<open>Watch_Loop\<close> has the
    watch's own goroutine \<open>Watch\<close> as the step relation \<open>watch_step\<close>, one constructor per
    branch, with the steps of everybody else.
  \<^item> \<^verbatim>\<open>pkg/cache/managedcluster.go\<close> and \<^verbatim>\<open>managedclusterset.go\<close>: the two caches over the
    authorization cache, in \<open>Typed_Caches\<close>.
  \<^item> \<^verbatim>\<open>pkg/registry\<close>: the REST storages, in \<open>Registry\<close>.
  \<^item> \<^verbatim>\<open>pkg/apis/cluster\<close>: the registration of kinds and versions, in \<open>Scheme_Register\<close>.
  \<^item> \<^verbatim>\<open>pkg/cmd\<close>: startup and wiring, in \<open>Server\<close>; the options with their flags, \<open>main\<close> of
    \<^verbatim>\<open>cmd/server\<close> and the build information of \<^verbatim>\<open>pkg/version\<close>, in \<open>Command\<close>. \<open>Server_Steps\<close> puts
    everything together as the step relation \<open>server_step\<close>: what the post-start hooks run,
    interleaved with requests, watches and changes of the hub.

  \<^bold>\<open>Passes in ticks.\<close> \<open>synchronize\<close> is one call in the source, and other goroutines run while
  it does. \<open>Pass_Steps\<close> has it as a machine with a program counter (\<open>pass_tick\<close>): one tick is
  one iteration of one of its loops, and may read another state of the informers.
  \<open>pass_ticks\<close> shows that the ticks over one environment are the call. Three relations
  interleave ticks with everything else: \<open>server_step\<close>; \<open>served_step\<close> (\<open>Watch_Policy\<close>), which
  adds the goroutine of one watch and consists of steps of the server (\<open>served_server\<close>);
  and \<open>life_step\<close> (\<open>Watch_Life\<close>), where the ticks of one pass read one hub.

  \<^bold>\<open>Interaction.\<close> A pass lists the objects, reviews those whose resource version is new, then
  walks the bindings and reviews each name a binding's role covers unless the record of the
  name has seen this version of the binding and of the role, then purges the names that are
  gone. A review replaces the entries of a name in the two subject indexes, and notifies
  every watcher under the mutex. \<open>List\<close> reads the subject indexes; \<open>Watch\<close> takes a snapshot
  with \<open>List\<close>, registers with the cache, and from then on receives the notifications. The two
  halves of a watch request are not one step in the source: \<open>ClusterREST_Watch_snapshot\<close> and
  \<open>ClusterREST_Watch_register\<close> (\<open>Registry\<close>) are the halves, \<open>ClusterREST_Watch\<close> the request
  that no pass interrupts.

  \<^bold>\<open>Interfaces.\<close> Each is a locale, interpreted on the model: \<open>lister_contract\<close> (an informer's
  lister, \<open>Api_Objects\<close>), \<open>reviewer_contract\<close> (\<open>Rbac_Review\<close>), \<open>subject_index\<close>
  (\<open>Auth_Store\<close>), \<open>cache_watcher\<close> and its extension \<open>roomy_watcher\<close> (what a pass relies on when
  it notifies: the callee leaves the caches alone, and returns while its channel has room;
  \<open>Watcher_Contract\<close>, \<open>Watcher_Room\<close>), \<open>watchable_cache\<close> (what a watch relies on;
  \<open>Cache_Watch\<close>, a \<open>sublocale\<close> of \<open>roomy_watcher\<close>, interpreted for both caches in
  \<open>Typed_Caches\<close>), \<open>listing_loop\<close> (the loop shared by the two typed lists), and
  \<open>event_policy\<close> (what the events of a watch may be; \<open>Watch_Policy\<close>, with the policies of the
  properties in \<open>Watch_Kind\<close>).

  \<^bold>\<open>Specifications.\<close>
  \<^item> \<open>may_get_user\<close> and \<open>may_get_group\<close> (\<open>Rbac_Review\<close>) say what RBAC grants; \<open>hub_lists\<close>
    (\<open>Server_Steps\<close>) is that relation for a user and a cluster on the present hub.
  \<^item> \<open>cache_inv\<close> (\<open>Auth_Step_Facts\<close>): the subject indexes are the inverse of the review
    records, with no empty entry.
  \<^item> \<open>access_view\<close> abstracts a cache to the users and groups recorded for each name;
    \<open>sync_view\<close> (\<open>Auth_Sync_Facts\<close>) is the abstract pass on that view, and \<open>sync_step\<close> the pass
    with the watchers left out. \<open>up_to_date\<close> (\<open>Pass_Facts\<close>) relates a cache to the hub.
  \<^item> \<open>replica\<close>, \<open>event_ok\<close> and \<open>stream_ok\<close> (\<open>Watch_Loop\<close>) say what a client can rebuild from the
    events; \<open>watch_inv\<close> (\<open>Watch_Facts\<close>) is the invariant of a watch.
  \<^item> \<open>follows\<close> (\<open>Watch_Sync\<close>): a watch knows, of the names its scopes show, what its user is
    listed, at the version of the hub; \<open>settled\<close>: every record of the cache is of the hub, at
    its version. \<open>pass_assertion\<close> (\<open>Pass_Assertions\<close>) annotates the program points of a pass with what holds of
    a watch there, and \<open>pass_tick_ok\<close> shows that each tick keeps the annotation.
    \<open>life_inv\<close> (\<open>Watch_Life\<close>) joins it to \<open>watch_inv\<close>, over all interleavings.

  \<^bold>\<open>Properties.\<close>
  \<^item> \<open>Props_Pass\<close>: what a pass establishes and what the listings then say: the first pass is
    exact, later passes refine \<open>sync_view\<close>, changes of bindings and clusters take effect,
    names that are gone vanish, the order of map ranges does not matter, a pass returns while
    the channels have room; and the limits: a failing list empties every listing, and
    access that is not reviewed stays, as after the deletion of a binding.
  \<^item> \<open>Props_Watch\<close>: the events of a watch form a sensible stream that rebuilds what the watch
    holds; a watch ends only by its user; left to itself, its goroutine always delivers all it
    holds, or ends once it is stopped, in a bounded number of steps (\<open>Watch_End\<close>); and the
    limits: a full channel deadlocks the pass for ever, and a user without scopes sees no event.
  \<^item> \<open>Props_Access\<close>: the reviewer decides exactly RBAC access and fails closed, the scope
    parser inverts its format, a scope only narrows what its role gives, the in-place removal
    is a filter, and the wildcard on subresources that the escalation filter misses.
  \<^item> \<open>Props_Server\<close>: over all interleavings of ticks, what is listed was granted on a hub that
    some tick read, and the listing is exactly what the review records say; ticks make up the
    passes and no pass goes on for ever; cluster sets are never listed; the super user's
    name; startup and registration.
  \<^item> \<open>Props_Life\<close>: a watch and a listing agree between passes, over all interleavings; a watch
    is sent only clusters that some hub granted to its user, and only clusters; the initial
    list of a watch is the whole listing of its user, whatever the scopes; and the limit: a
    notification that falls between the two halves of a watch request is lost.

  \<^bold>\<open>Choices.\<close>
  \<^item> Go errors are values (\<open>go_error\<close>, a result is \<open>Inl\<close> an error or \<open>Inr\<close> a value). Code
    that can wait returns a \<open>run\<close>: \<open>Done\<close> with its result, or \<open>Blocked\<close> in the state it waits
    in. A mutex is a flag; taking it while it is held blocks, and as passes, additions and
    removals are atomic otherwise, a block is one by the holder itself.
  \<^item> The order of a range over a map is a parameter (\<open>range_order\<close>: any permutation).
  \<^item> A store, a lister and an informer are finite maps. \<open>synchronize\<close> reads one state of the
    hub; its ticks may each read another one in \<open>server_step\<close> and \<open>served_step\<close>, while in
    \<open>life_step\<close> the ticks of one pass read the same and passes read different ones. A store keeps values where
    Go keeps pointers; no record is shared between two entries.
  \<^item> The capacities of the channels are those of the source, 1000 for events and 1 for errors.
    \<open>notification_bound\<close> (\<open>Watcher_Room\<close>) bounds the notifications of a pass: one for each
    request and one for each name that is gone; \<open>heap_room\<close> says that every channel has room
    for so many, which is enough for a pass to return. No other fuel or bound is used: every
    loop of the model is total.
  \<^item> The step relations let the environment do more than it can: \<open>other\<close> of \<open>watch_step\<close> and
    the client steps of \<open>server_step\<close> allow any change that keeps the watch, or the caches.
  \<^item> The functions of the API machinery and of the library \<open>library-go\<close> that the results depend
    on (version priorities, the scope describers, the grouping of subjects, \<open>ExtractList\<close>,
    the stores of client-go) are modelled after their vendored sources; the calls that only
    fail or succeed (clients, configuration, certificates) are parameters.

  \<^bold>\<open>Not modelled.\<close> \<^verbatim>\<open>pkg/dependencymagnet\<close> (imports only), deep copies,
  logging, the high-water mark of the channels, the texts of most errors (a tag stands for
  them), the generated clients, and the unsynchronised read of a name set by \<open>listNames\<close>
  while a tick changes it: a read is a step between two ticks.
\<close>

end
